theory Spec2Isabelle
  imports Main "HOL-Library.AList"
begin

section \<open>Python values and the object store\<close>

text \<open>
  The program is \<^verbatim>\<open>src/deepdict/settings.py\<close>: the class \<^verbatim>\<open>Settings\<close> and its
  nested class \<^verbatim>\<open>Settings.Storage\<close>. Both are views over mutable dictionaries that are
  shared by reference, so the model keeps an explicit object store. A Python value is a
  scalar or a reference into the store; the objects in the store are dictionaries and
  \<^verbatim>\<open>Storage\<close> instances. Lists and floats are outside the value universe of the model.
\<close>

type_synonym addr = nat

datatype val = VNone | VBool bool | VInt int | VStr string | VRef addr

text \<open>
  \<^verbatim>\<open>type(ret) == OrderedDict or type(ret) == dict\<close> distinguishes the two built-in
  mapping types from every other mapping class, so the store records the class of a
  dictionary object. \<open>Document\<close> is the class of the root backing object
  (\<^verbatim>\<open>JsonOrderedDict\<close> or the caller's \<^verbatim>\<open>class_type\<close>) when it is not one of the two.
\<close>

datatype dict_kind = PlainDict | OrderedDict | Document

text \<open>
  The instance dictionary of a \<^verbatim>\<open>Storage\<close> object holds exactly the four name-mangled
  attributes that \<^verbatim>\<open>Storage.__init__\<close> assigns.
\<close>

record storage_obj =
  s_storage :: val
  s_parent :: val
  s_parent_name :: val
  s_readonly :: val

datatype obj = Dict dict_kind "(string \<times> val) list" | Node storage_obj

text \<open>
  \<open>KeyError k\<close> is Python's \<^verbatim>\<open>KeyError(k)\<close>; the read-only violation is the
  \<^verbatim>\<open>KeyError("The storage is read only")\<close> of \<^verbatim>\<open>Storage.__setattr__\<close>.
  \<open>Unmodelled\<close> marks a step that leaves this model: a dangling reference, a key that
  is not a string, or a \<^verbatim>\<open>Storage\<close> object used as the backing mapping or the parent
  of another one.
\<close>

datatype error = KeyError string | TypeError | AttributeError | ImportError | Unmodelled

text \<open>
  The state of one \<^verbatim>\<open>Settings\<close> instance together with the object store:
  \<open>self_dict\<close> lists the names in the instance's \<^verbatim>\<open>__dict__\<close>, \<open>root\<close> is the
  attribute \<^verbatim>\<open>_Settings__storage\<close>, \<open>is_watcher_on\<close> the attribute
  \<^verbatim>\<open>_Settings__is_watcher_on\<close>. \<open>nxt\<close> is the next unused address.
\<close>

record state =
  self_dict :: "string list"
  root :: addr
  is_watcher_on :: bool
  heap :: "addr \<Rightarrow> obj option"
  nxt :: addr

type_synonym 'a res = "(error + 'a) \<times> state"

definition alloc :: "obj \<Rightarrow> state \<Rightarrow> addr \<times> state" where
  "alloc ob st = (nxt st, st\<lparr>heap := (heap st)(nxt st \<mapsto> ob), nxt := Suc (nxt st)\<rparr>)"

section \<open>Dotted keys\<close>

text \<open>\<^verbatim>\<open>key.split(".")\<close> and \<^verbatim>\<open>".".join(parts)\<close>. The split of any string has at
  least one part, so \<open>hd (split_dot key)\<close> is \<^verbatim>\<open>key.split(".")[0]\<close> and
  \<open>tl (split_dot key)\<close> is \<^verbatim>\<open>key.split(".")[1:]\<close>.\<close>

fun split_dot :: "string \<Rightarrow> string list" where
  "split_dot [] = [[]]"
| "split_dot (c # cs) =
     (if c = CHR ''.'' then [] # split_dot cs
      else (c # hd (split_dot cs)) # tl (split_dot cs))"

fun join_dot :: "string list \<Rightarrow> string" where
  "join_dot [] = []"
| "join_dot [w] = w"
| "join_dot (w # v # ws) = w @ CHR ''.'' # join_dot (v # ws)"

definition has_dot :: "string \<Rightarrow> bool" where
  "has_dot key = (CHR ''.'' \<in> set key)"

definition first_seg :: "string \<Rightarrow> string" where
  "first_seg key = hd (split_dot key)"

definition rest_segs :: "string \<Rightarrow> string" where
  "rest_segs key = join_dot (tl (split_dot key))"

section \<open>Built-in operations\<close>

text \<open>Python's \<^verbatim>\<open>x in s\<close> for two strings: \<open>x\<close> occurs in \<open>s\<close> as a contiguous run.\<close>

fun is_prefix :: "string \<Rightarrow> string \<Rightarrow> bool" where
  "is_prefix [] ys = True"
| "is_prefix (x # xs) [] = False"
| "is_prefix (x # xs) (y # ys) = (x = y \<and> is_prefix xs ys)"

fun is_substring :: "string \<Rightarrow> string \<Rightarrow> bool" where
  "is_substring xs [] = (xs = [])"
| "is_substring xs (y # ys) = (is_prefix xs (y # ys) \<or> is_substring xs ys)"

text \<open>
  Modelled from the spec: the class \<^verbatim>\<open>JsonOrderedDict\<close> of the root backing object is
  imported from \<^verbatim>\<open>dice.dice_extras.tools.json_sync\<close> and is not part of the sources.
  The spec describes it as an ordered key/value document with standard container
  semantics, so a \<open>Document\<close> behaves as an ordered dictionary here. Its persistence to
  disk and its \<^verbatim>\<open>autowrite\<close> switch (saved and restored around the copy loop of
  \<^verbatim>\<open>Storage.__getattr__\<close>) have no effect on the stored mapping and are left out.

  The operations below are the built-in \<^verbatim>\<open>k in m\<close>, \<^verbatim>\<open>m[k]\<close>, \<^verbatim>\<open>m[k] = v\<close>,
  \<^verbatim>\<open>del m[k]\<close>, \<^verbatim>\<open>m.keys()\<close>, \<^verbatim>\<open>m.items()\<close> and \<^verbatim>\<open>len(m)\<close> on the value \<open>m\<close> that a
  \<^verbatim>\<open>Storage\<close> holds as its backing mapping or its parent. That value is a dictionary
  unless the attribute was overwritten; on a scalar Python raises, except that \<^verbatim>\<open>in\<close> and
  \<^verbatim>\<open>len\<close> are defined on strings.
\<close>

definition obj_contains :: "string \<Rightarrow> val \<Rightarrow> state \<Rightarrow> error + bool" where
  "obj_contains k m st =
     (case m of
        VRef a \<Rightarrow>
          (case heap st a of
             Some (Dict kd its) \<Rightarrow> Inr (k \<in> fst ` set its)
           | _ \<Rightarrow> Inl Unmodelled)
      | VStr s \<Rightarrow> Inr (is_substring k s)
      | _ \<Rightarrow> Inl TypeError)"

definition obj_getitem :: "val \<Rightarrow> string \<Rightarrow> state \<Rightarrow> error + val" where
  "obj_getitem m k st =
     (case m of
        VRef a \<Rightarrow>
          (case heap st a of
             Some (Dict kd its) \<Rightarrow>
               (case map_of its k of None \<Rightarrow> Inl (KeyError k) | Some v \<Rightarrow> Inr v)
           | _ \<Rightarrow> Inl Unmodelled)
      | _ \<Rightarrow> Inl TypeError)"

definition obj_setitem :: "val \<Rightarrow> string \<Rightarrow> val \<Rightarrow> state \<Rightarrow> unit res" where
  "obj_setitem m k v st =
     (case m of
        VRef a \<Rightarrow>
          (case heap st a of
             Some (Dict kd its) \<Rightarrow>
               (Inr (), st\<lparr>heap := (heap st)(a \<mapsto> Dict kd (AList.update k v its))\<rparr>)
           | _ \<Rightarrow> (Inl Unmodelled, st))
      | _ \<Rightarrow> (Inl TypeError, st))"

definition obj_delitem :: "val \<Rightarrow> string \<Rightarrow> state \<Rightarrow> unit res" where
  "obj_delitem m k st =
     (case m of
        VRef a \<Rightarrow>
          (case heap st a of
             Some (Dict kd its) \<Rightarrow>
               (if k \<in> fst ` set its
                then (Inr (), st\<lparr>heap := (heap st)(a \<mapsto> Dict kd (AList.delete k its))\<rparr>)
                else (Inl (KeyError k), st))
           | _ \<Rightarrow> (Inl Unmodelled, st))
      | _ \<Rightarrow> (Inl TypeError, st))"

definition obj_items :: "val \<Rightarrow> state \<Rightarrow> error + (string \<times> val) list" where
  "obj_items m st =
     (case m of
        VRef a \<Rightarrow>
          (case heap st a of
             Some (Dict kd its) \<Rightarrow> Inr its
           | _ \<Rightarrow> Inl Unmodelled)
      | _ \<Rightarrow> Inl AttributeError)"

definition obj_keys :: "val \<Rightarrow> state \<Rightarrow> error + string list" where
  "obj_keys m st = (case obj_items m st of Inl e \<Rightarrow> Inl e | Inr its \<Rightarrow> Inr (map fst its))"

definition obj_len :: "val \<Rightarrow> state \<Rightarrow> error + nat" where
  "obj_len m st =
     (case m of
        VRef a \<Rightarrow>
          (case heap st a of
             Some (Dict kd its) \<Rightarrow> Inr (length its)
           | _ \<Rightarrow> Inl Unmodelled)
      | VStr s \<Rightarrow> Inr (length s)
      | _ \<Rightarrow> Inl TypeError)"

text \<open>The truth value of a Python value. A \<^verbatim>\<open>Storage\<close> defines \<^verbatim>\<open>__len__\<close> as the length
  of its backing mapping and no \<^verbatim>\<open>__bool__\<close>, so it is true when that length is not 0.\<close>

definition py_truthy :: "val \<Rightarrow> state \<Rightarrow> error + bool" where
  "py_truthy v st =
     (case v of
        VNone \<Rightarrow> Inr False
      | VBool b \<Rightarrow> Inr b
      | VInt i \<Rightarrow> Inr (i \<noteq> 0)
      | VStr s \<Rightarrow> Inr (s \<noteq> [])
      | VRef a \<Rightarrow>
          (case heap st a of
             Some (Dict kd its) \<Rightarrow> Inr (its \<noteq> [])
           | Some (Node n) \<Rightarrow>
               (case obj_len (s_storage n) st of Inl e \<Rightarrow> Inl e | Inr l \<Rightarrow> Inr (l \<noteq> 0))
           | None \<Rightarrow> Inl Unmodelled))"

section \<open>The class Storage\<close>

text \<open>The names for which \<^verbatim>\<open>Storage.__setattr__\<close> and \<^verbatim>\<open>Storage.__delitem__\<close> touch the
  instance dictionary instead of the backing mapping. After \<^verbatim>\<open>__init__\<close> these four are
  exactly the keys of the instance dictionary, so \<^verbatim>\<open>key in self.__dict__\<close> tests the
  same thing.\<close>

definition storage_attrs :: "string list" where
  "storage_attrs =
     [''_Storage__storage'', ''_Storage__parent'',
      ''_Storage__parent_name'', ''_Storage__readonly'']"

text \<open>\<^verbatim>\<open>Storage.__init__\<close>: when \<^verbatim>\<open>storage\<close> is \<^verbatim>\<open>None\<close> the node gets a new empty
  \<^verbatim>\<open>OrderedDict\<close>.\<close>

definition Storage_init :: "val \<Rightarrow> val \<Rightarrow> val \<Rightarrow> val \<Rightarrow> state \<Rightarrow> addr \<times> state" where
  "Storage_init storage parent parent_name readonly st =
     (let (b, st1) = (if storage \<noteq> VNone then (storage, st)
                      else (let (a, st') = alloc (Dict OrderedDict []) st in (VRef a, st')))
      in alloc (Node \<lparr>s_storage = b, s_parent = parent,
                      s_parent_name = parent_name, s_readonly = readonly\<rparr>) st1)"

text \<open>\<^verbatim>\<open>Storage.__get_parent\<close> returns the parent, or \<^verbatim>\<open>None\<close> when there is no parent or
  the parent name is false; \<^verbatim>\<open>Storage.__set_parent_value\<close> stores under the parent name.\<close>

definition get_parent :: "storage_obj \<Rightarrow> state \<Rightarrow> error + val" where
  "get_parent n st =
     (if s_parent n \<noteq> VNone then
        (case py_truthy (s_parent_name n) st of
           Inl e \<Rightarrow> Inl e
         | Inr t \<Rightarrow> Inr (if t then s_parent n else VNone))
      else Inr VNone)"

definition set_parent_value :: "storage_obj \<Rightarrow> val \<Rightarrow> state \<Rightarrow> unit res" where
  "set_parent_value n v st =
     (if s_parent n \<noteq> VNone then
        (case s_parent_name n of
           VStr k \<Rightarrow> obj_setitem (s_parent n) k v st
         | _ \<Rightarrow> (Inl Unmodelled, st))
      else (Inr (), st))"

text \<open>The first branch of \<^verbatim>\<open>Storage.__setattr__\<close>: \<^verbatim>\<open>self.__dict__[key] = value\<close> for one of
  the four attribute names.\<close>

definition set_attribute :: "addr \<Rightarrow> storage_obj \<Rightarrow> string \<Rightarrow> val \<Rightarrow> state \<Rightarrow> unit res" where
  "set_attribute self n key v st =
     (let n1 = (if key = ''_Storage__storage'' then n\<lparr>s_storage := v\<rparr>
                else if key = ''_Storage__parent'' then n\<lparr>s_parent := v\<rparr>
                else if key = ''_Storage__parent_name'' then n\<lparr>s_parent_name := v\<rparr>
                else n\<lparr>s_readonly := v\<rparr>)
      in (Inr (), st\<lparr>heap := (heap st)(self \<mapsto> Node n1)\<rparr>))"

text \<open>\<^verbatim>\<open>Storage.__setattr__\<close>, which \<^verbatim>\<open>Storage.__setitem__\<close> calls unchanged. The test
  \<^verbatim>\<open>self.__readonly and key in storage\<close> evaluates its second part only when the first is
  true.\<close>

definition Storage_setattr :: "addr \<Rightarrow> string \<Rightarrow> val \<Rightarrow> state \<Rightarrow> unit res" where
  "Storage_setattr self key v st =
     (case heap st self of
        Some (Node n) \<Rightarrow>
          (if key \<in> set storage_attrs then set_attribute self n key v st
           else
             (case py_truthy (s_readonly n) st of
                Inl e \<Rightarrow> (Inl e, st)
              | Inr ro \<Rightarrow>
                  (case (if ro then obj_contains key (s_storage n) st else Inr False) of
                     Inl e \<Rightarrow> (Inl e, st)
                   | Inr locked \<Rightarrow>
                       (if locked then (Inl (KeyError ''The storage is read only''), st)
                        else
                          (case obj_setitem (s_storage n) key v st of
                             (Inl e, st1) \<Rightarrow> (Inl e, st1)
                           | (Inr u, st1) \<Rightarrow>
                               (case get_parent n st1 of
                                  Inl e \<Rightarrow> (Inl e, st1)
                                | Inr parent \<Rightarrow>
                                    (if parent \<noteq> VNone
                                     then set_parent_value n (s_storage n) st1
                                     else (Inr (), st1))))))))
      | _ \<Rightarrow> (Inl Unmodelled, st))"

text \<open>The loop \<^verbatim>\<open>for key in ret: ret1[key] = ret[key]\<close> of \<^verbatim>\<open>Storage.__getattr__\<close>. The
  keys are those of \<open>ret\<close> when the loop starts; each value is read when its turn comes.\<close>

fun copy_items :: "addr \<Rightarrow> val \<Rightarrow> string list \<Rightarrow> state \<Rightarrow> unit res" where
  "copy_items ret1 ret [] st = (Inr (), st)"
| "copy_items ret1 ret (key # keys) st =
     (case obj_getitem ret key st of
        Inl e \<Rightarrow> (Inl e, st)
      | Inr v \<Rightarrow>
          (case Storage_setattr ret1 key v st of
             (Inl e, st1) \<Rightarrow> (Inl e, st1)
           | (Inr u, st1) \<Rightarrow> copy_items ret1 ret keys st1))"

text \<open>\<^verbatim>\<open>type(ret) == OrderedDict or type(ret) == dict\<close>.\<close>

definition type_is_dict :: "val \<Rightarrow> state \<Rightarrow> bool" where
  "type_is_dict v st =
     (case v of
        VRef a \<Rightarrow>
          (case heap st a of
             Some (Dict kd its) \<Rightarrow> kd = OrderedDict \<or> kd = PlainDict
           | _ \<Rightarrow> False)
      | _ \<Rightarrow> False)"

text \<open>The two places where \<^verbatim>\<open>Storage.__getattr__\<close> builds a child node, both with
  \<^verbatim>\<open>Settings.Storage(parent=self.__dict__["_Storage__storage"], parent_name=item)\<close>: no
  \<^verbatim>\<open>storage\<close> and no \<^verbatim>\<open>readonly\<close> argument, so both take their defaults \<^verbatim>\<open>None\<close> and
  \<^verbatim>\<open>False\<close>. \<open>vivify\<close> is the branch \<^verbatim>\<open>if ret is None\<close>, which stores the new node under
  \<open>item\<close>; \<open>wrap_dict\<close> is the branch for a stored \<^verbatim>\<open>dict\<close> or \<^verbatim>\<open>OrderedDict\<close>, which
  copies its items into the new node.\<close>

definition vivify :: "storage_obj \<Rightarrow> string \<Rightarrow> state \<Rightarrow> val res" where
  "vivify n item st =
     (let (ret, st1) = Storage_init VNone (s_storage n) (VStr item) (VBool False) st
      in (case obj_setitem (s_storage n) item (VRef ret) st1 of
            (Inl e, st2) \<Rightarrow> (Inl e, st2)
          | (Inr u, st2) \<Rightarrow> (Inr (VRef ret), st2)))"

definition wrap_dict :: "storage_obj \<Rightarrow> string \<Rightarrow> val \<Rightarrow> state \<Rightarrow> val res" where
  "wrap_dict n item ret st =
     (let (ret1, st1) = Storage_init VNone (s_storage n) (VStr item) (VBool False) st
      in (case obj_keys ret st1 of
            Inl e \<Rightarrow> (Inl e, st1)
          | Inr keys \<Rightarrow>
              (case copy_items ret1 ret keys st1 of
                 (Inl e, st2) \<Rightarrow> (Inl e, st2)
               | (Inr u, st2) \<Rightarrow> (Inr (VRef ret1), st2))))"

text \<open>\<^verbatim>\<open>Storage.__getattr__\<close>, which \<^verbatim>\<open>Storage.__getitem__\<close> calls unchanged. Its first
  test, \<^verbatim>\<open>"_Storage__storage" not in self.__dict__\<close>, is false for every constructed node
  and is left out.\<close>

definition Storage_getattr :: "addr \<Rightarrow> string \<Rightarrow> state \<Rightarrow> val res" where
  "Storage_getattr self item st =
     (case heap st self of
        Some (Node n) \<Rightarrow>
          (case obj_contains item (s_storage n) st of
             Inl e \<Rightarrow> (Inl e, st)
           | Inr present \<Rightarrow>
               (case (if present then obj_getitem (s_storage n) item st else Inr VNone) of
                  Inl e \<Rightarrow> (Inl e, st)
                | Inr ret0 \<Rightarrow>
                    (case (if ret0 = VNone then vivify n item st else (Inr ret0, st)) of
                       (Inl e, st1) \<Rightarrow> (Inl e, st1)
                     | (Inr ret, st1) \<Rightarrow>
                         (if type_is_dict ret st1 then wrap_dict n item ret st1
                          else (Inr ret, st1)))))
      | _ \<Rightarrow> (Inl Unmodelled, st))"

text \<open>\<^verbatim>\<open>Storage.__delitem__\<close>, \<^verbatim>\<open>Storage.__contains__\<close>, \<^verbatim>\<open>Storage.keys\<close>,
  \<^verbatim>\<open>Storage.items\<close> and \<^verbatim>\<open>Storage.__len__\<close>.\<close>

definition Storage_delitem :: "addr \<Rightarrow> string \<Rightarrow> state \<Rightarrow> unit res" where
  "Storage_delitem self key st =
     (case heap st self of
        Some (Node n) \<Rightarrow>
          (if key \<in> set storage_attrs then (Inr (), st)
           else
             (case obj_contains key (s_storage n) st of
                Inl e \<Rightarrow> (Inl e, st)
              | Inr present \<Rightarrow>
                  (if present then obj_delitem (s_storage n) key st else (Inr (), st))))
      | _ \<Rightarrow> (Inl Unmodelled, st))"

definition Storage_contains :: "addr \<Rightarrow> string \<Rightarrow> state \<Rightarrow> error + bool" where
  "Storage_contains self item st =
     (case heap st self of
        Some (Node n) \<Rightarrow> obj_contains item (s_storage n) st
      | _ \<Rightarrow> Inl Unmodelled)"

definition Storage_keys :: "addr \<Rightarrow> state \<Rightarrow> error + string list" where
  "Storage_keys self st =
     (case heap st self of
        Some (Node n) \<Rightarrow> obj_keys (s_storage n) st
      | _ \<Rightarrow> Inl Unmodelled)"

definition Storage_items :: "addr \<Rightarrow> state \<Rightarrow> error + (string \<times> val) list" where
  "Storage_items self st =
     (case heap st self of
        Some (Node n) \<Rightarrow> obj_items (s_storage n) st
      | _ \<Rightarrow> Inl Unmodelled)"

definition Storage_len :: "addr \<Rightarrow> state \<Rightarrow> error + nat" where
  "Storage_len self st =
     (case heap st self of
        Some (Node n) \<Rightarrow> obj_len (s_storage n) st
      | _ \<Rightarrow> Inl Unmodelled)"

section \<open>Operators on the values a walk reaches\<close>

text \<open>The helpers of \<^verbatim>\<open>Settings\<close> apply \<^verbatim>\<open>x[k]\<close>, \<^verbatim>\<open>x[k] = v\<close> and \<^verbatim>\<open>k in x\<close> to whatever
  value the walk has reached: a \<^verbatim>\<open>Storage\<close> dispatches to the methods above, any other
  value to the built-in operation.\<close>

definition py_getitem :: "val \<Rightarrow> string \<Rightarrow> state \<Rightarrow> val res" where
  "py_getitem x k st =
     (case x of
        VRef a \<Rightarrow>
          (case heap st a of
             Some (Node n) \<Rightarrow> Storage_getattr a k st
           | _ \<Rightarrow> (obj_getitem x k st, st))
      | _ \<Rightarrow> (obj_getitem x k st, st))"

definition py_setitem :: "val \<Rightarrow> string \<Rightarrow> val \<Rightarrow> state \<Rightarrow> unit res" where
  "py_setitem x k v st =
     (case x of
        VRef a \<Rightarrow>
          (case heap st a of
             Some (Node n) \<Rightarrow> Storage_setattr a k v st
           | _ \<Rightarrow> obj_setitem x k v st)
      | _ \<Rightarrow> obj_setitem x k v st)"

definition py_contains :: "string \<Rightarrow> val \<Rightarrow> state \<Rightarrow> error + bool" where
  "py_contains k x st =
     (case x of
        VRef a \<Rightarrow>
          (case heap st a of
             Some (Node n) \<Rightarrow> Storage_contains a k st
           | _ \<Rightarrow> obj_contains k x st)
      | _ \<Rightarrow> obj_contains k x st)"

text \<open>\<^verbatim>\<open>d if d else OrderedDict()\<close>.\<close>

definition or_new_dict :: "val \<Rightarrow> state \<Rightarrow> val res" where
  "or_new_dict d st =
     (case py_truthy d st of
        Inl e \<Rightarrow> (Inl e, st)
      | Inr t \<Rightarrow>
          (if t then (Inr d, st)
           else (let (a, st1) = alloc (Dict OrderedDict []) st in (Inr (VRef a), st1))))"

section \<open>The class Settings\<close>

lemma split_dot_not_empty: "split_dot s \<noteq> []"
  by (induction s) auto

lemma join_split_dot: "join_dot (split_dot s) = s"
proof (induction s)
  case Nil
  show ?case by simp
next
  case (Cons c cs)
  obtain w ws where ws: "split_dot cs = w # ws"
    using split_dot_not_empty [of cs] by (cases "split_dot cs") auto
  with Cons show ?case by (cases ws) auto
qed

lemma split_dot_no_dot: "CHR ''.'' \<notin> set s \<Longrightarrow> split_dot s = [s]"
  by (induction s) auto

lemma split_dot_append:
  "CHR ''.'' \<notin> set a \<Longrightarrow> split_dot (a @ CHR ''.'' # r) = a # split_dot r"
  by (induction a) auto

lemma first_seg_append: "CHR ''.'' \<notin> set a \<Longrightarrow> first_seg (a @ CHR ''.'' # r) = a"
  by (simp add: first_seg_def split_dot_append)

lemma rest_segs_append: "CHR ''.'' \<notin> set a \<Longrightarrow> rest_segs (a @ CHR ''.'' # r) = r"
  by (simp add: rest_segs_def split_dot_append join_split_dot)

lemma has_dot_append: "has_dot (a @ CHR ''.'' # r)"
  by (simp add: has_dot_def)

lemma has_dot_decompose:
  assumes "has_dot key"
  shows "\<exists>a r. key = a @ CHR ''.'' # r \<and> CHR ''.'' \<notin> set a"
proof -
  from assms have "CHR ''.'' \<in> set key" by (simp add: has_dot_def)
  then obtain a r where "key = a @ CHR ''.'' # r" "CHR ''.'' \<notin> set a"
    by (auto dest: split_list_first)
  then show ?thesis by blast
qed

lemma rest_segs_shorter: "has_dot key \<Longrightarrow> length (rest_segs key) < length key"
proof -
  assume "has_dot key"
  then obtain a r where k: "key = a @ CHR ''.'' # r" and a: "CHR ''.'' \<notin> set a"
    using has_dot_decompose by blast
  show ?thesis unfolding k by (simp add: rest_segs_append [OF a])
qed

definition watcher_on :: "state \<Rightarrow> state" where
  "watcher_on st = st\<lparr>is_watcher_on := True\<rparr>"

definition watcher_off :: "state \<Rightarrow> state" where
  "watcher_off st = st\<lparr>is_watcher_on := False\<rparr>"

text \<open>The inner \<^verbatim>\<open>helper(key, array)\<close> of \<^verbatim>\<open>Settings.__getitem__\<close>.\<close>

function getitem_helper :: "string \<Rightarrow> val \<Rightarrow> state \<Rightarrow> val res" where
  "getitem_helper key array st =
     (if has_dot key then
        (case py_getitem array (first_seg key) st of
           (Inl e, st1) \<Rightarrow> (Inl e, st1)
         | (Inr x, st1) \<Rightarrow> getitem_helper (rest_segs key) x st1)
      else py_getitem array key st)"
  by pat_completeness auto
termination
  by (relation "measure (\<lambda>(key, array, st). length key)") (auto simp: rest_segs_shorter)

text \<open>\<^verbatim>\<open>Settings.__getitem__\<close>: an exception of the helper leaves the method before
  \<^verbatim>\<open>self.__watcher_on()\<close> runs.\<close>

definition Settings_getitem :: "string \<Rightarrow> state \<Rightarrow> val res" where
  "Settings_getitem item st =
     (let st0 = watcher_off st
      in (case getitem_helper item (VRef (root st0)) st0 of
            (Inl e, st1) \<Rightarrow> (Inl e, st1)
          | (Inr ret, st1) \<Rightarrow> (Inr ret, watcher_on st1)))"

text \<open>\<^verbatim>\<open>Settings.__getattr__\<close>: for a name in the instance dictionary the result is that
  instance attribute, which the model names without giving it a value.\<close>

datatype attr_result = Attribute string | Value val

definition Settings_getattr :: "string \<Rightarrow> state \<Rightarrow> attr_result res" where
  "Settings_getattr item st =
     (if item \<in> set (self_dict st) then (Inr (Attribute item), st)
      else
        (let st0 = watcher_off st
         in (case Storage_getattr (root st0) item st0 of
               (Inl e, st1) \<Rightarrow> (Inl e, st1)
             | (Inr ret, st1) \<Rightarrow> (Inr (Value ret), watcher_on st1))))"

text \<open>The inner \<^verbatim>\<open>helper(d, item, val)\<close> of \<^verbatim>\<open>Settings.__setitem__\<close>. Python evaluates
  the right-hand side of \<^verbatim>\<open>ret[k] = helper(ret[k], ...)\<close> first: the read \<^verbatim>\<open>ret[k]\<close>,
  then the recursive call, then the store.\<close>

function setitem_helper :: "val \<Rightarrow> string \<Rightarrow> val \<Rightarrow> state \<Rightarrow> val res" where
  "setitem_helper d item v st =
     (case or_new_dict d st of
        (Inl e, st1) \<Rightarrow> (Inl e, st1)
      | (Inr ret, st1) \<Rightarrow>
          (if has_dot item then
             (case py_getitem ret (first_seg item) st1 of
                (Inl e, st2) \<Rightarrow> (Inl e, st2)
              | (Inr x, st2) \<Rightarrow>
                  (case setitem_helper x (rest_segs item) v st2 of
                     (Inl e, st3) \<Rightarrow> (Inl e, st3)
                   | (Inr y, st3) \<Rightarrow>
                       (case py_setitem ret (first_seg item) y st3 of
                          (Inl e, st4) \<Rightarrow> (Inl e, st4)
                        | (Inr u, st4) \<Rightarrow> (Inr ret, st4))))
           else
             (case py_setitem ret item v st1 of
                (Inl e, st2) \<Rightarrow> (Inl e, st2)
              | (Inr u, st2) \<Rightarrow> (Inr ret, st2))))"
  by pat_completeness auto
termination
  by (relation "measure (\<lambda>(d, item, v, st). length item)") (auto simp: rest_segs_shorter)

text \<open>\<^verbatim>\<open>Settings.__setitem__\<close>. The closing lines retry \<^verbatim>\<open>self.watcher.addPath\<close> on the
  Qt watcher; they change nothing in this state and are not modelled.\<close>

definition Settings_setitem :: "string \<Rightarrow> val \<Rightarrow> state \<Rightarrow> unit res" where
  "Settings_setitem key v st =
     (let st0 = watcher_off st
      in (case (if has_dot key then
                  (case Storage_getattr (root st0) (first_seg key) st0 of
                     (Inl e, st1) \<Rightarrow> (Inl e, st1)
                   | (Inr x, st1) \<Rightarrow>
                       (case setitem_helper x (rest_segs key) v st1 of
                          (Inl e, st2) \<Rightarrow> (Inl e, st2)
                        | (Inr y, st2) \<Rightarrow> Storage_setattr (root st2) (first_seg key) y st2))
                else Storage_setattr (root st0) key v st0) of
            (Inl e, st3) \<Rightarrow> (Inl e, st3)
          | (Inr u, st3) \<Rightarrow> (Inr (), watcher_on st3)))"

text \<open>\<^verbatim>\<open>Settings.__delitem__\<close>.\<close>

definition Settings_delitem :: "string \<Rightarrow> state \<Rightarrow> unit res" where
  "Settings_delitem key st =
     (if key \<in> set (self_dict st) then (Inr (), st)
      else
        (case Storage_contains (root st) key st of
           Inl e \<Rightarrow> (Inl e, st)
         | Inr present \<Rightarrow>
             (if present then
                (let st0 = watcher_off st
                 in (case Storage_delitem (root st0) key st0 of
                       (Inl e, st1) \<Rightarrow> (Inl e, st1)
                     | (Inr u, st1) \<Rightarrow> (Inr (), watcher_on st1)))
              else (Inr (), st))))"

text \<open>The inner \<^verbatim>\<open>helper(d, key)\<close> of \<^verbatim>\<open>Settings.__contains__\<close>, and the method.\<close>

function contains_helper :: "val \<Rightarrow> string \<Rightarrow> state \<Rightarrow> bool res" where
  "contains_helper d key st =
     (case or_new_dict d st of
        (Inl e, st1) \<Rightarrow> (Inl e, st1)
      | (Inr d1, st1) \<Rightarrow>
          (if has_dot key then
             (case py_contains (first_seg key) d1 st1 of
                Inl e \<Rightarrow> (Inl e, st1)
              | Inr present \<Rightarrow>
                  (if present then
                     (case py_getitem d1 (first_seg key) st1 of
                        (Inl e, st2) \<Rightarrow> (Inl e, st2)
                      | (Inr x, st2) \<Rightarrow> contains_helper x (rest_segs key) st2)
                   else (Inr False, st1)))
           else
             (case py_contains key d1 st1 of
                Inl e \<Rightarrow> (Inl e, st1)
              | Inr b \<Rightarrow> (Inr b, st1))))"
  by pat_completeness auto
termination
  by (relation "measure (\<lambda>(d, key, st). length key)") (auto simp: rest_segs_shorter)

definition Settings_contains :: "string \<Rightarrow> state \<Rightarrow> bool res" where
  "Settings_contains item st =
     (if has_dot item then
        (case Storage_contains (root st) (first_seg item) st of
           Inl e \<Rightarrow> (Inl e, st)
         | Inr present \<Rightarrow>
             (if present then
                (case Storage_getattr (root st) (first_seg item) st of
                   (Inl e, st1) \<Rightarrow> (Inl e, st1)
                 | (Inr x, st1) \<Rightarrow> contains_helper x (rest_segs item) st1)
              else (Inr False, st)))
      else
        (case Storage_contains (root st) item st of
           Inl e \<Rightarrow> (Inl e, st)
         | Inr b \<Rightarrow> (Inr b, st)))"

text \<open>\<^verbatim>\<open>Settings.keys\<close>.\<close>

definition Settings_keys :: "state \<Rightarrow> error + string list" where
  "Settings_keys st = Storage_keys (root st) st"

text \<open>
  \<^verbatim>\<open>Settings.__init__\<close>. The backing object \<^verbatim>\<open>storage\<close> is built by a constructor outside
  the sources, so the model takes the object store \<open>h\<close> as that constructor left it, with
  the backing mapping at \<open>storage\<close> and \<open>free\<close> the next unused address. \<open>watchdog\<close>
  and \<open>pyqt\<close> say whether the two watcher libraries can be imported. Every assignment
  \<^verbatim>\<open>self.name = ...\<close> made before \<^verbatim>\<open>_Settings__storage\<close> exists goes through the hook
  branch of \<^verbatim>\<open>Settings.__setattr__\<close> into the instance dictionary.
\<close>

definition init_qt_watcher :: "bool \<Rightarrow> string list \<Rightarrow> error + string list \<times> bool" where
  "init_qt_watcher pyqt names =
     (if pyqt then Inr (names @ [''watcher'', ''is_watcher_set''], True)
      else Inl ImportError)"

definition init_watchdog :: "bool \<Rightarrow> string list \<Rightarrow> error + string list \<times> bool" where
  "init_watchdog watchdog names =
     (if watchdog then Inr (names @ [''handler'', ''observer''], True)
      else Inl ImportError)"

definition Settings_init ::
  "string option \<Rightarrow> bool \<Rightarrow> bool \<Rightarrow> bool \<Rightarrow> bool \<Rightarrow> bool \<Rightarrow>
   (addr \<Rightarrow> obj option) \<Rightarrow> addr \<Rightarrow> addr \<Rightarrow> error + state" where
  "Settings_init file_name use_qt_watcher file_necessary readonly watchdog pyqt h storage free =
     (let names = [''file_name'', ''autowrite'', ''_Settings__on_change'',
                   ''_Settings__is_watcher_on''];
          watched =
            (if file_necessary \<or> (file_name \<noteq> None \<and> file_name \<noteq> Some []) then
               (if use_qt_watcher then init_qt_watcher pyqt names
                else (case init_watchdog watchdog names of
                        Inl e \<Rightarrow> init_qt_watcher pyqt names
                      | Inr r \<Rightarrow> Inr r))
             else Inr (names, False))
      in (case watched of
            Inl e \<Rightarrow> Inl e
          | Inr (names1, on) \<Rightarrow>
              (let st0 = \<lparr>self_dict = names1, root = 0, is_watcher_on = on,
                          heap = h, nxt = free\<rparr>;
                   (r, st1) = Storage_init (VRef storage) VNone (VStr []) (VBool readonly) st0
               in Inr (st1\<lparr>self_dict := names1 @ [''_Settings__storage''], root := r\<rparr>))))"

section \<open>Stores used as examples\<close>

text \<open>\<open>default_store readonly h storage free\<close> is the state that \<^verbatim>\<open>Settings(readonly=...)\<close>
  builds with its default arguments when the watchdog library is present (lemma
  \<open>Settings_init_default\<close> below): the watcher is on and the instance dictionary holds
  the seven names listed. \<open>flat_store\<close> has a document with the given top-level items
  and nothing else in the object store; \<open>nested_store\<close> holds the document
  \<^verbatim>\<open>{"foo": {"bar": 1}}\<close>.\<close>

definition default_store :: "bool \<Rightarrow> (addr \<Rightarrow> obj option) \<Rightarrow> addr \<Rightarrow> addr \<Rightarrow> state" where
  "default_store readonly h storage free =
     \<lparr>self_dict = [''file_name'', ''autowrite'', ''_Settings__on_change'',
                   ''_Settings__is_watcher_on'', ''handler'', ''observer'',
                   ''_Settings__storage''],
      root = free, is_watcher_on = True,
      heap = h(free \<mapsto> Node \<lparr>s_storage = VRef storage, s_parent = VNone,
                               s_parent_name = VStr [], s_readonly = VBool readonly\<rparr>),
      nxt = Suc free\<rparr>"

definition flat_store :: "bool \<Rightarrow> (string \<times> val) list \<Rightarrow> state" where
  "flat_store readonly its = default_store readonly (Map.empty(0 \<mapsto> Dict Document its)) 0 1"

definition nested_store :: "bool \<Rightarrow> state" where
  "nested_store readonly =
     default_store readonly
       (Map.empty(0 \<mapsto> Dict Document [(''foo'', VRef 1)],
                  1 \<mapsto> Dict OrderedDict [(''bar'', VInt 1)])) 0 2"

text \<open>\<open>dict_value_store\<close> has an empty document and, beside it, the plain dictionary
  \<^verbatim>\<open>{"host": "h", "port": 5}\<close> at address 1, ready to be stored as a value.\<close>

definition dict_value_store :: state where
  "dict_value_store =
     default_store False
       (Map.empty(0 \<mapsto> Dict Document [],
                  1 \<mapsto> Dict PlainDict [(''host'', VStr ''h''), (''port'', VInt 5)])) 0 2"

text \<open>Two states agree on the fields of the \<^verbatim>\<open>Settings\<close> instance itself.\<close>

definition same_self :: "state \<Rightarrow> state \<Rightarrow> bool" where
  "same_self st st' =
     (self_dict st' = self_dict st \<and> root st' = root st \<and> is_watcher_on st' = is_watcher_on st)"

section \<open>Predicates on the object store\<close>

text \<open>
  Two predicates for the frame property of \<^verbatim>\<open>Settings.__contains__\<close>. \<open>wf_heap\<close> says
  that nothing is stored at or above the allocation pointer and that no dictionary in
  the object store has an attribute name of \<^verbatim>\<open>Storage\<close> as a key (the copy loop of
  \<^verbatim>\<open>Storage.__getattr__\<close> would write such a key into the attributes of the node it
  builds). \<open>keeps_keys N st st'\<close> says that every dictionary stored below address \<open>N\<close>
  in \<open>st\<close> is in \<open>st'\<close> a dictionary of the same class with the same keys in the same
  order, and that every node below \<open>N\<close> is unchanged.
\<close>

definition wf_heap :: "state \<Rightarrow> bool" where
  "wf_heap st =
     ((\<forall>a. nxt st \<le> a \<longrightarrow> heap st a = None)
      \<and> (\<forall>a kd its. heap st a = Some (Dict kd its)
             \<longrightarrow> fst ` set its \<inter> set storage_attrs = {}))"

definition keeps_keys :: "addr \<Rightarrow> state \<Rightarrow> state \<Rightarrow> bool" where
  "keeps_keys N st st' =
     (\<forall>a<N.
        (\<forall>kd its. heap st a = Some (Dict kd its)
            \<longrightarrow> (\<exists>its'. heap st' a = Some (Dict kd its') \<and> map fst its' = map fst its))
        \<and> (\<forall>n. heap st a = Some (Node n) \<longrightarrow> heap st' a = Some (Node n)))"

definition grows :: "state \<Rightarrow> state \<Rightarrow> bool" where
  "grows st st' = (wf_heap st' \<and> nxt st \<le> nxt st' \<and> keeps_keys (nxt st) st st')"

section \<open>Unfolding rules and frame lemmas\<close>

declare getitem_helper.simps [simp del] setitem_helper.simps [simp del] contains_helper.simps [simp del]

lemmas builtin_defs = alloc_def obj_contains_def obj_getitem_def obj_setitem_def
  obj_delitem_def obj_items_def obj_keys_def obj_len_def py_truthy_def

lemma same_self_refl [simp]: "same_self st st"
  by (simp add: same_self_def)

lemma same_self_trans: "same_self st st1 \<Longrightarrow> same_self st1 st2 \<Longrightarrow> same_self st st2"
  by (simp add: same_self_def)

lemma same_self_heap [simp]: "same_self st (st'\<lparr>heap := h\<rparr>) = same_self st st'"
  "same_self st (st'\<lparr>nxt := k\<rparr>) = same_self st st'"
  by (simp_all add: same_self_def)

lemma alloc_self: "alloc ob st = (a, st') \<Longrightarrow> same_self st st'"
  by (auto simp: alloc_def same_self_def)

lemma obj_setitem_self: "obj_setitem m k v st = (r, st') \<Longrightarrow> same_self st st'"
  by (auto simp: obj_setitem_def split: val.splits option.splits obj.splits)

lemma obj_delitem_self: "obj_delitem m k st = (r, st') \<Longrightarrow> same_self st st'"
  by (auto simp: obj_delitem_def split: val.splits option.splits obj.splits if_splits)

lemma Storage_init_self: "Storage_init s p pn ro st = (a, st') \<Longrightarrow> same_self st st'"
  by (auto simp: Storage_init_def alloc_def same_self_def split: if_splits prod.splits)

lemma set_parent_value_self: "set_parent_value n v st = (r, st') \<Longrightarrow> same_self st st'"
  by (auto simp: set_parent_value_def split: val.splits if_splits dest: obj_setitem_self)

lemma set_attribute_self: "set_attribute self n key v st = (r, st') \<Longrightarrow> same_self st st'"
  by (auto simp: set_attribute_def Let_def)

lemma Storage_setattr_self: "Storage_setattr self key v st = (r, st') \<Longrightarrow> same_self st st'"
  unfolding Storage_setattr_def
  by (auto split: option.splits obj.splits sum.splits if_splits prod.splits
      dest: set_attribute_self obj_setitem_self set_parent_value_self same_self_trans)

lemma copy_items_self: "copy_items ret1 ret keys st = (r, st') \<Longrightarrow> same_self st st'"
proof (induction keys arbitrary: st)
  case Nil
  then show ?case by simp
next
  case (Cons key keys)
  then show ?case
    by (auto split: sum.splits prod.splits dest: Storage_setattr_self same_self_trans)
qed

lemma vivify_self: "vivify n item st = (r, st') \<Longrightarrow> same_self st st'"
  unfolding vivify_def
  by (auto split: prod.splits sum.splits dest: Storage_init_self obj_setitem_self same_self_trans)

lemma wrap_dict_self: "wrap_dict n item ret st = (r, st') \<Longrightarrow> same_self st st'"
  unfolding wrap_dict_def
  by (auto split: prod.splits sum.splits dest: Storage_init_self copy_items_self same_self_trans)

lemma Storage_getattr_self: "Storage_getattr self item st = (r, st') \<Longrightarrow> same_self st st'"
  unfolding Storage_getattr_def
  by (auto split: option.splits obj.splits sum.splits if_splits prod.splits
      dest: vivify_self wrap_dict_self same_self_trans)

lemma Storage_delitem_self: "Storage_delitem self key st = (r, st') \<Longrightarrow> same_self st st'"
  unfolding Storage_delitem_def
  by (auto split: option.splits obj.splits sum.splits if_splits dest: obj_delitem_self)

lemma py_getitem_self: "py_getitem x k st = (r, st') \<Longrightarrow> same_self st st'"
  unfolding py_getitem_def
  by (auto split: val.splits option.splits obj.splits dest: Storage_getattr_self)

lemma py_setitem_self: "py_setitem x k v st = (r, st') \<Longrightarrow> same_self st st'"
  unfolding py_setitem_def
  by (auto split: val.splits option.splits obj.splits dest: Storage_setattr_self obj_setitem_self)

lemma or_new_dict_self: "or_new_dict d st = (r, st') \<Longrightarrow> same_self st st'"
  unfolding or_new_dict_def
  by (auto split: sum.splits if_splits prod.splits dest: alloc_self)

lemma getitem_helper_self: "getitem_helper key array st = (r, st') \<Longrightarrow> same_self st st'"
proof (induction key array st arbitrary: r st' rule: getitem_helper.induct)
  case (1 key array st)
  show ?case
  proof (cases "has_dot key")
    case True
    obtain r1 st1 where p: "py_getitem array (first_seg key) st = (r1, st1)"
      by (cases "py_getitem array (first_seg key) st") auto
    then have s1: "same_self st st1" by (rule py_getitem_self)
    show ?thesis
    proof (cases r1)
      case (Inl e)
      with 1(2) True p s1 show ?thesis by (simp add: getitem_helper.simps [of key])
    next
      case (Inr x)
      with 1(2) True p have "getitem_helper (rest_segs key) x st1 = (r, st')"
        by (simp add: getitem_helper.simps [of key])
      then have "same_self st1 st'" using "1.IH" [OF True] p Inr by simp
      with s1 show ?thesis by (rule same_self_trans)
    qed
  next
    case False
    with 1(2) show ?thesis
      by (simp add: getitem_helper.simps [of key] py_getitem_self)
  qed
qed

lemma setitem_helper_self: "setitem_helper d item v st = (r, st') \<Longrightarrow> same_self st st'"
proof (induction d item v st arbitrary: r st' rule: setitem_helper.induct)
  case (1 d item v st)
  obtain r1 st1 where o: "or_new_dict d st = (r1, st1)"
    by (cases "or_new_dict d st") auto
  then have s1: "same_self st st1" by (rule or_new_dict_self)
  show ?case
  proof (cases r1)
    case (Inl e)
    with "1.prems" o s1 show ?thesis by (simp add: setitem_helper.simps [of d])
  next
    case ret: (Inr ret)
    show ?thesis
    proof (cases "has_dot item")
      case False
      with "1.prems" o ret have "same_self st1 st'"
        by (auto simp: setitem_helper.simps [of d] split: prod.splits sum.splits
            dest: py_setitem_self)
      with s1 show ?thesis by (rule same_self_trans)
    next
      case True
      obtain r2 st2 where g: "py_getitem ret (first_seg item) st1 = (r2, st2)"
        by (cases "py_getitem ret (first_seg item) st1") auto
      then have s2: "same_self st st2"
        using s1 by (blast intro: same_self_trans py_getitem_self)
      show ?thesis
      proof (cases r2)
        case (Inl e)
        with "1.prems" o ret True g s2 show ?thesis
          by (simp add: setitem_helper.simps [of d])
      next
        case x: (Inr x)
        obtain r3 st3 where h: "setitem_helper x (rest_segs item) v st2 = (r3, st3)"
          by (cases "setitem_helper x (rest_segs item) v st2") auto
        have "same_self st2 st3"
          using "1.IH" [OF _ _ True _ _ h] o ret g x by simp
        with s2 have s3: "same_self st st3" by (rule same_self_trans)
        from "1.prems" o ret True g x h have "same_self st3 st'"
          by (auto simp: setitem_helper.simps [of d] split: prod.splits sum.splits
              dest: py_setitem_self)
        with s3 show ?thesis by (rule same_self_trans)
      qed
    qed
  qed
qed

lemma contains_helper_self: "contains_helper d key st = (r, st') \<Longrightarrow> same_self st st'"
proof (induction d key st arbitrary: r st' rule: contains_helper.induct)
  case (1 d key st)
  obtain r1 st1 where o: "or_new_dict d st = (r1, st1)"
    by (cases "or_new_dict d st") auto
  then have s1: "same_self st st1" by (rule or_new_dict_self)
  show ?case
  proof (cases r1)
    case (Inl e)
    with "1.prems" o s1 show ?thesis by (simp add: contains_helper.simps [of d])
  next
    case d1: (Inr d1)
    show ?thesis
    proof (cases "has_dot key \<and> py_contains (first_seg key) d1 st1 = Inr True")
      case False
      with "1.prems" o d1 have "st' = st1"
        by (auto simp: contains_helper.simps [of d] split: sum.splits if_splits)
      with s1 show ?thesis by simp
    next
      case True
      obtain r2 st2 where g: "py_getitem d1 (first_seg key) st1 = (r2, st2)"
        by (cases "py_getitem d1 (first_seg key) st1") auto
      then have s2: "same_self st st2"
        using s1 by (blast intro: same_self_trans py_getitem_self)
      show ?thesis
      proof (cases r2)
        case (Inl e)
        with "1.prems" o d1 True g s2 show ?thesis
          by (simp add: contains_helper.simps [of d])
      next
        case x: (Inr x)
        with "1.prems" o d1 True g
        have h: "contains_helper x (rest_segs key) st2 = (r, st')"
          by (simp add: contains_helper.simps [of d])
        have "same_self st2 st'"
          using "1.IH" [OF _ _ _ _ _ _ _ h] o d1 True g x by simp
        with s2 show ?thesis by (rule same_self_trans)
      qed
    qed
  qed
qed

lemmas storage_defs = storage_attrs_def Storage_init_def get_parent_def set_parent_value_def
  set_attribute_def Storage_setattr_def type_is_dict_def vivify_def wrap_dict_def
  Storage_getattr_def Storage_delitem_def Storage_contains_def Storage_keys_def
  Storage_items_def Storage_len_def

lemmas walk_defs = py_getitem_def py_setitem_def py_contains_def or_new_dict_def

lemmas settings_defs = watcher_on_def watcher_off_def Settings_getitem_def
  Settings_getattr_def Settings_setitem_def Settings_delitem_def Settings_contains_def
  Settings_keys_def

lemmas store_defs = flat_store_def nested_store_def default_store_def

lemma Settings_init_default:
  "Settings_init None False True readonly True pyqt h storage free
     = Inr (default_store readonly h storage free)"
  by (simp add: Settings_init_def init_watchdog_def default_store_def Storage_init_def alloc_def)

lemmas dot_defs = has_dot_def first_seg_def rest_segs_def

lemmas eval_defs = store_defs settings_defs walk_defs storage_defs builtin_defs dot_defs
  getitem_helper.simps setitem_helper.simps contains_helper.simps

section \<open>Claims\<close>

text \<open>
  C10. \<^verbatim>\<open>Settings.__delitem__\<close> starts with \<^verbatim>\<open>if key in self.__dict__: return\<close>. For
  every key that is the name of an instance attribute of the store object, delete
  returns without touching anything: the whole state, the storage included, is what it
  was, also when the key is present as a stored key. The example is the store built with
  the default arguments, whose instance dictionary holds \<^verbatim>\<open>file_name\<close>,
  \<^verbatim>\<open>autowrite\<close>, \<^verbatim>\<open>handler\<close> and \<^verbatim>\<open>observer\<close>, with \<^verbatim>\<open>handler\<close> also a stored key.
\<close>

theorem delitem_instance_attribute:
  "key \<in> set (self_dict st) \<Longrightarrow> Settings_delitem key st = (Inr (), st)"
  by (simp add: Settings_delitem_def)

theorem delitem_instance_attribute_witness:
  "Settings_init None False True False True False
       (Map.empty(0 \<mapsto> Dict Document [(''handler'', VInt 1)])) 0 1
     = Inr (flat_store False [(''handler'', VInt 1)])
   \<and> set [''file_name'', ''autowrite'', ''handler'', ''observer'']
       \<subseteq> set (self_dict (flat_store False [(''handler'', VInt 1)]))
   \<and> Settings_keys (flat_store False [(''handler'', VInt 1)]) = Inr [''handler'']
   \<and> Settings_delitem ''handler'' (flat_store False [(''handler'', VInt 1)])
       = (Inr (), flat_store False [(''handler'', VInt 1)])"
  using delitem_instance_attribute [of "''handler''" "flat_store False [(''handler'', VInt 1)]"]
  by (simp add: Settings_init_default store_defs Settings_keys_def Storage_keys_def
      obj_keys_def obj_items_def)

text \<open>
  C4, as amended. \<^verbatim>\<open>Settings.__getitem__\<close> and \<^verbatim>\<open>Settings.__setitem__\<close> switch the
  watcher flag off on entry and on again as their last step, with no \<^verbatim>\<open>try\<close> around the
  work in between: after either operation the flag is on exactly when the operation
  returned normally, and off when it raised. \<^verbatim>\<open>Settings.__delitem__\<close> leaves the flag as
  it was when the key is an instance attribute name or is not stored; otherwise it
  behaves like the other two.
\<close>

theorem watcher_flag_after_operation:
  "is_watcher_on (snd (Settings_getitem item st)) = (\<not> isl (fst (Settings_getitem item st)))
   \<and> is_watcher_on (snd (Settings_setitem key v st)) = (\<not> isl (fst (Settings_setitem key v st)))
   \<and> is_watcher_on (snd (Settings_delitem k st)) =
       (if k \<in> set (self_dict st) \<or> Storage_contains (root st) k st \<noteq> Inr True
        then is_watcher_on st
        else \<not> isl (fst (Settings_delitem k st)))"
proof (intro conjI)
  show "is_watcher_on (snd (Settings_getitem item st)) = (\<not> isl (fst (Settings_getitem item st)))"
  proof (cases "getitem_helper item (VRef (root st)) (watcher_off st)")
    case (Pair r st1)
    then have "same_self (watcher_off st) st1" by (rule getitem_helper_self)
    with Pair show ?thesis
      by (cases r) (simp_all add: Settings_getitem_def same_self_def watcher_off_def watcher_on_def)
  qed
next
  let ?body = "if has_dot key then
                  (case Storage_getattr (root (watcher_off st)) (first_seg key) (watcher_off st) of
                     (Inl e, st1) \<Rightarrow> (Inl e, st1)
                   | (Inr x, st1) \<Rightarrow>
                       (case setitem_helper x (rest_segs key) v st1 of
                          (Inl e, st2) \<Rightarrow> (Inl e, st2)
                        | (Inr y, st2) \<Rightarrow> Storage_setattr (root st2) (first_seg key) y st2))
                else Storage_setattr (root (watcher_off st)) key v (watcher_off st)"
  obtain r st3 where b: "?body = (r, st3)" by (cases ?body) auto
  then have "same_self (watcher_off st) st3"
    by (auto split: if_splits prod.splits sum.splits
        dest!: Storage_getattr_self setitem_helper_self Storage_setattr_self
        simp: same_self_def)
  moreover have "is_watcher_on (watcher_off st) = False" by (simp add: watcher_off_def)
  ultimately have off: "is_watcher_on st3 = False" by (simp add: same_self_def)
  show "is_watcher_on (snd (Settings_setitem key v st))
      = (\<not> isl (fst (Settings_setitem key v st)))"
    unfolding Settings_setitem_def Let_def b
    using off by (cases r) (simp_all add: watcher_on_def)
next
  show "is_watcher_on (snd (Settings_delitem k st)) =
       (if k \<in> set (self_dict st) \<or> Storage_contains (root st) k st \<noteq> Inr True
        then is_watcher_on st
        else \<not> isl (fst (Settings_delitem k st)))"
  proof (cases "Storage_delitem (root st) k (watcher_off st)")
    case (Pair r st1)
    then have "same_self (watcher_off st) st1" by (rule Storage_delitem_self)
    with Pair show ?thesis
      by (cases r)
         (auto simp: Settings_delitem_def same_self_def watcher_off_def watcher_on_def
            split: sum.splits)
  qed
qed

theorem watcher_flag_after_operation_witness:
  "is_watcher_on (snd (Settings_getitem ''a'' (flat_store False [(''a'', VInt 5)])))
   \<and> fst (Settings_getitem ''a'' (flat_store False [(''a'', VInt 5)])) = Inr (VInt 5)
   \<and> is_watcher_on (snd (Settings_setitem ''b.c'' (VInt 1) (flat_store False [(''a'', VInt 5)])))
   \<and> fst (Settings_setitem ''b.c'' (VInt 1) (flat_store False [(''a'', VInt 5)])) = Inr ()
   \<and> is_watcher_on (snd (Settings_delitem ''a'' (flat_store False [(''a'', VInt 5)])))
   \<and> fst (Settings_delitem ''a'' (flat_store False [(''a'', VInt 5)])) = Inr ()"
  using watcher_flag_after_operation [of "''a''" "flat_store False [(''a'', VInt 5)]"
      "''b.c''" "VInt 1" "''a''"]
  by (simp add: eval_defs)

text \<open>C4 as stated fails. On the store \<^verbatim>\<open>{"a": 5}\<close> the read \<^verbatim>\<open>store["a.b"]\<close> indexes the
  integer and raises \<^verbatim>\<open>TypeError\<close>; on a read-only store the write \<^verbatim>\<open>store["a"] = 6\<close>
  raises the read-only \<^verbatim>\<open>KeyError\<close>. Both leave the watcher flag off.\<close>

theorem watcher_stays_off_counterexample:
  "is_watcher_on (flat_store True [(''a'', VInt 5)])
   \<and> fst (Settings_getitem ''a.b'' (flat_store True [(''a'', VInt 5)])) = Inl TypeError
   \<and> \<not> is_watcher_on (snd (Settings_getitem ''a.b'' (flat_store True [(''a'', VInt 5)])))
   \<and> fst (Settings_setitem ''a'' (VInt 6) (flat_store True [(''a'', VInt 5)]))
       = Inl (KeyError ''The storage is read only'')
   \<and> \<not> is_watcher_on (snd (Settings_setitem ''a'' (VInt 6) (flat_store True [(''a'', VInt 5)])))"
  by (simp add: eval_defs)

text \<open>
  C1 fails on the code. On an empty store \<^verbatim>\<open>store["a.b.c"] = v\<close> raises
  \<^verbatim>\<open>KeyError('b')\<close>: the read \<^verbatim>\<open>self.__storage["a"]\<close> creates an empty node, the helper
  replaces the empty (false) node by a new \<^verbatim>\<open>OrderedDict()\<close> and then evaluates
  \<^verbatim>\<open>ret["b"]\<close> on it. The key \<^verbatim>\<open>a\<close> stays behind in the document. With two segments
  the same write succeeds.
\<close>

theorem setitem_three_segments_raises:
  "fst (Settings_setitem ''a.b.c'' v (flat_store False [])) = Inl (KeyError ''b'')
   \<and> Settings_keys (snd (Settings_setitem ''a.b.c'' v (flat_store False []))) = Inr [''a'']
   \<and> fst (Settings_setitem ''a.b'' v (flat_store False [])) = Inr ()"
  by (simp add: eval_defs)

text \<open>
  C6 fails on the code. In a store built with \<^verbatim>\<open>readonly=True\<close> over the document
  \<^verbatim>\<open>{"foo": {"bar": 1}}\<close>, overwriting the top-level key \<^verbatim>\<open>foo\<close> raises the read-only
  error, but \<^verbatim>\<open>store.foo\<close> is a node built without the \<^verbatim>\<open>readonly\<close> argument, and
  \<^verbatim>\<open>store.foo.bar = 2\<close> on it succeeds and changes the document.
\<close>

theorem nested_write_ignores_readonly:
  "fst (Settings_setitem ''foo'' (VInt 0) (nested_store True))
     = Inl (KeyError ''The storage is read only'')
   \<and> fst (Settings_getattr ''foo'' (nested_store True)) = Inr (Value (VRef 4))
   \<and> fst (Storage_setattr 4 ''bar'' (VInt 2) (snd (Settings_getattr ''foo'' (nested_store True))))
     = Inr ()
   \<and> fst (Settings_getitem ''foo.bar''
        (snd (Storage_setattr 4 ''bar'' (VInt 2) (snd (Settings_getattr ''foo'' (nested_store True))))))
     = Inr (VInt 2)"
  by (simp add: eval_defs)

lemma update_fresh: "k \<notin> fst ` set xs \<Longrightarrow> AList.update k v xs = xs @ [(k, v)]"
  by (induction xs) auto

lemma map_of_fresh: "k \<notin> fst ` set xs \<Longrightarrow> map_of xs k = None"
  by (simp add: map_of_eq_None_iff)

text \<open>
  C5, as amended. In a store whose root node has \<^verbatim>\<open>readonly=True\<close>, a top-level write
  \<^verbatim>\<open>store[k] = v\<close> for a key \<open>k\<close> without a dot that is not one of the four attribute
  names of \<^verbatim>\<open>Storage\<close> raises the read-only \<^verbatim>\<open>KeyError\<close> when \<open>k\<close> is present in the
  backing mapping (nothing changes but the watcher flag, which stays off), and succeeds
  when \<open>k\<close> is absent: \<open>(k, v)\<close> is appended to the backing mapping.
\<close>

theorem readonly_blocks_overwrite:
  assumes "heap st (root st) = Some (Node n)"
    and "s_readonly n = VBool True"
    and "s_storage n = VRef b"
    and "heap st b = Some (Dict kd its)"
    and "s_parent n = VNone"
    and "\<not> has_dot k"
    and "k \<notin> set storage_attrs"
  shows "(k \<in> fst ` set its \<longrightarrow>
            Settings_setitem k v st
              = (Inl (KeyError ''The storage is read only''), watcher_off st))
       \<and> (k \<notin> fst ` set its \<longrightarrow>
            Settings_setitem k v st
              = (Inr (), watcher_on (st\<lparr>heap := (heap st)(b \<mapsto> Dict kd (its @ [(k, v)]))\<rparr>)))"
  using assms
  by (simp add: Settings_setitem_def Storage_setattr_def watcher_off_def watcher_on_def
      py_truthy_def obj_contains_def obj_setitem_def get_parent_def update_fresh)

theorem readonly_blocks_overwrite_witness:
  "heap (flat_store True [(''a'', VInt 5)]) (root (flat_store True [(''a'', VInt 5)]))
     = Some (Node \<lparr>s_storage = VRef 0, s_parent = VNone, s_parent_name = VStr [],
                    s_readonly = VBool True\<rparr>)
   \<and> heap (flat_store True [(''a'', VInt 5)]) 0 = Some (Dict Document [(''a'', VInt 5)])
   \<and> fst (Settings_setitem ''a'' (VInt 6) (flat_store True [(''a'', VInt 5)]))
       = Inl (KeyError ''The storage is read only'')
   \<and> fst (Settings_setitem ''new'' (VInt 6) (flat_store True [(''a'', VInt 5)])) = Inr ()
   \<and> heap (snd (Settings_setitem ''new'' (VInt 6) (flat_store True [(''a'', VInt 5)]))) 0
       = Some (Dict Document [(''a'', VInt 5), (''new'', VInt 6)])"
  using readonly_blocks_overwrite [of "flat_store True [(''a'', VInt 5)]"
      "\<lparr>s_storage = VRef 0, s_parent = VNone, s_parent_name = VStr [], s_readonly = VBool True\<rparr>"
      0 Document "[(''a'', VInt 5)]" "''a''" "VInt 6"]
    readonly_blocks_overwrite [of "flat_store True [(''a'', VInt 5)]"
      "\<lparr>s_storage = VRef 0, s_parent = VNone, s_parent_name = VStr [], s_readonly = VBool True\<rparr>"
      0 Document "[(''a'', VInt 5)]" "''new''" "VInt 6"]
  by (simp add: store_defs dot_defs storage_attrs_def watcher_on_def watcher_off_def)

text \<open>C5 as stated fails for the attribute names: \<^verbatim>\<open>Storage.__setattr__\<close> sends them to
  the instance dictionary before it looks at the read-only flag. With
  \<^verbatim>\<open>_Storage__readonly\<close> present in the backing mapping of a read-only store,
  \<^verbatim>\<open>store["_Storage__readonly"] = False\<close> raises nothing (and switches the flag off).\<close>

theorem readonly_attribute_name_counterexample:
  "Storage_contains (root (flat_store True [(''_Storage__readonly'', VInt 5)]))
       ''_Storage__readonly'' (flat_store True [(''_Storage__readonly'', VInt 5)]) = Inr True
   \<and> fst (Settings_setitem ''_Storage__readonly'' (VBool False)
            (flat_store True [(''_Storage__readonly'', VInt 5)])) = Inr ()
   \<and> heap (snd (Settings_setitem ''_Storage__readonly'' (VBool False)
            (flat_store True [(''_Storage__readonly'', VInt 5)]))) 0
       = Some (Dict Document [(''_Storage__readonly'', VInt 5)])"
  by (simp add: eval_defs)

lemma map_of_update_same: "map_of (AList.update k v xs) k = Some v"
  by (simp add: update_conv')

lemma key_in_update: "k \<in> fst ` set (AList.update k v xs)"
  by (simp add: dom_update)

text \<open>A successful write of a key that is not an attribute name stores the value in the
  backing mapping and leaves the node and the allocation pointer alone.\<close>

lemma Storage_setattr_success:
  assumes "heap st self = Some (Node n)"
    and "s_storage n = VRef b"
    and "heap st b = Some (Dict kd its)"
    and "s_parent n \<noteq> VRef b"
    and "k \<notin> set storage_attrs"
    and "Storage_setattr self k v st = (Inr (), st1)"
  shows "heap st1 self = Some (Node n) \<and> heap st1 b = Some (Dict kd (AList.update k v its))
       \<and> nxt st1 = nxt st"
proof -
  have sb: "self \<noteq> b" using assms(1,3) by auto
  let ?st' = "st\<lparr>heap := (heap st)(b \<mapsto> Dict kd (AList.update k v its))\<rparr>"
  have set: "obj_setitem (VRef b) k v st = (Inr (), ?st')"
    using assms(3) by (simp add: obj_setitem_def)
  show ?thesis
  proof (cases "get_parent n ?st'")
    case (Inl e)
    with assms set show ?thesis
      by (auto simp: Storage_setattr_def split: sum.splits if_splits)
  next
    case (Inr parent)
    show ?thesis
    proof (cases "parent = VNone")
      case True
      with assms set Inr sb show ?thesis
        by (auto simp: Storage_setattr_def split: sum.splits if_splits)
    next
      case False
      with assms set Inr have sp: "set_parent_value n (VRef b) ?st' = (Inr (), st1)"
        by (auto simp: Storage_setattr_def split: sum.splits if_splits)
      moreover have "s_parent n \<noteq> VNone"
        using Inr False by (auto simp: get_parent_def split: if_splits)
      ultimately obtain p pk pkd pits where p: "s_parent n = VRef p" "s_parent_name n = VStr pk"
          "heap ?st' p = Some (Dict pkd pits)"
          "st1 = ?st'\<lparr>heap := (heap ?st')(p \<mapsto> Dict pkd (AList.update pk (VRef b) pits))\<rparr>"
        by (auto simp: set_parent_value_def obj_setitem_def
            split: val.splits if_splits option.splits obj.splits)
      have "p \<noteq> b" using p(1) assms(4) by auto
      moreover have "p \<noteq> self" using p(3) assms(1) sb by (auto split: if_splits)
      ultimately show ?thesis using p(4) assms(1) sb by simp
    qed
  qed
qed

text \<open>
  C9, as amended. Take any node whose backing mapping is a dictionary (and whose parent
  is not that same dictionary, which holds for every node the code builds), and any key
  \<open>k\<close> other than the four attribute names of \<^verbatim>\<open>Storage\<close>. After a write
  \<^verbatim>\<open>node[k] = None\<close> that returns normally the backing mapping holds \<^verbatim>\<open>None\<close> under
  \<open>k\<close>, and the read \<^verbatim>\<open>node[k]\<close> does not return it: it returns a node allocated by the
  read, whose items are empty, and that node replaces the stored \<^verbatim>\<open>None\<close> in the backing
  mapping. The hypotheses \<open>self < nxt st\<close> and \<open>b < nxt st\<close> say that the node and its
  backing mapping are allocated objects.
\<close>

theorem stored_none_reads_as_empty_node:
  assumes "heap st self = Some (Node n)"
    and "s_storage n = VRef b"
    and "heap st b = Some (Dict kd its)"
    and "s_parent n \<noteq> VRef b"
    and "self < nxt st" and "b < nxt st"
    and "k \<notin> set storage_attrs"
    and "Storage_setattr self k VNone st = (Inr (), st1)"
  shows "obj_getitem (VRef b) k st1 = Inr VNone
       \<and> fst (Storage_getattr self k st1) = Inr (VRef (Suc (nxt st1)))
       \<and> Storage_items (Suc (nxt st1)) (snd (Storage_getattr self k st1)) = Inr []
       \<and> obj_getitem (VRef b) k (snd (Storage_getattr self k st1)) = Inr (VRef (Suc (nxt st1)))"
proof -
  from Storage_setattr_success [OF assms(1,2,3,4,7,8)]
  have h: "heap st1 self = Some (Node n)" "heap st1 b = Some (Dict kd (AList.update k VNone its))"
    "nxt st1 = nxt st" by auto
  have ne: "self \<noteq> b" "b \<noteq> nxt st1" "b \<noteq> Suc (nxt st1)" "self \<noteq> nxt st1" "self \<noteq> Suc (nxt st1)"
    using assms(1,3,5,6) h(3) by auto
  show ?thesis
    using h ne assms(2)
    by (simp add: Storage_getattr_def obj_contains_def obj_getitem_def key_in_update
        map_of_update_same vivify_def Storage_init_def alloc_def obj_setitem_def
        type_is_dict_def Storage_items_def obj_items_def)
qed

theorem stored_none_reads_as_empty_node_witness:
  "heap (flat_store False []) 1
     = Some (Node \<lparr>s_storage = VRef 0, s_parent = VNone, s_parent_name = VStr [],
                    s_readonly = VBool False\<rparr>)
   \<and> heap (flat_store False []) 0 = Some (Dict Document [])
   \<and> nxt (flat_store False []) = 2 \<and> ''k'' \<notin> set storage_attrs
   \<and> fst (Storage_setattr 1 ''k'' VNone (flat_store False [])) = Inr ()
   \<and> obj_getitem (VRef 0) ''k'' (snd (Storage_setattr 1 ''k'' VNone (flat_store False [])))
       = Inr VNone
   \<and> fst (Storage_getattr 1 ''k'' (snd (Storage_setattr 1 ''k'' VNone (flat_store False []))))
       = Inr (VRef 3)
   \<and> Storage_items 3 (snd (Storage_getattr 1 ''k''
          (snd (Storage_setattr 1 ''k'' VNone (flat_store False []))))) = Inr []
   \<and> obj_getitem (VRef 0) ''k'' (snd (Storage_getattr 1 ''k''
          (snd (Storage_setattr 1 ''k'' VNone (flat_store False []))))) = Inr (VRef 3)"
  using stored_none_reads_as_empty_node [of "flat_store False []"
      1 "\<lparr>s_storage = VRef 0, s_parent = VNone, s_parent_name = VStr [], s_readonly = VBool False\<rparr>"
      0 Document "[]" "''k''"
      "snd (Storage_setattr 1 ''k'' VNone (flat_store False []))"]
  by (simp add: eval_defs)

text \<open>C9 as stated fails for the key \<^verbatim>\<open>_Storage__storage\<close>: the write succeeds, but it
  replaces the node's backing attribute by \<^verbatim>\<open>None\<close>, and the read then raises
  \<^verbatim>\<open>TypeError\<close> at \<^verbatim>\<open>item in None\<close> instead of returning an empty node.\<close>

theorem stored_none_attribute_name_counterexample:
  "fst (Storage_setattr (root (flat_store False [])) ''_Storage__storage'' VNone
          (flat_store False [])) = Inr ()
   \<and> fst (Storage_getattr (root (flat_store False [])) ''_Storage__storage''
          (snd (Storage_setattr (root (flat_store False [])) ''_Storage__storage'' VNone
             (flat_store False [])))) = Inl TypeError
   \<and> fst (Settings_getitem ''_Storage__storage''
          (snd (Settings_setitem ''_Storage__storage'' VNone (flat_store False []))))
       = Inl TypeError"
  by (simp add: eval_defs)

text \<open>Reading a key that the backing mapping of a node lacks: \<^verbatim>\<open>Storage.__getattr__\<close>
  allocates an empty \<^verbatim>\<open>OrderedDict\<close> and a node around it, stores the node under the key
  and returns it.\<close>

lemma Storage_getattr_absent:
  assumes "heap st x = Some (Node m)"
    and "s_storage m = VRef bx"
    and "heap st bx = Some (Dict kd its)"
    and "x < nxt st" and "bx < nxt st"
    and "seg \<notin> fst ` set its"
  shows "Storage_getattr x seg st =
     (Inr (VRef (Suc (nxt st))),
      st\<lparr>heap := (heap st)
             (nxt st \<mapsto> Dict OrderedDict [],
              Suc (nxt st) \<mapsto> Node \<lparr>s_storage = VRef (nxt st), s_parent = VRef bx,
                                       s_parent_name = VStr seg, s_readonly = VBool False\<rparr>,
              bx \<mapsto> Dict kd (AList.update seg (VRef (Suc (nxt st))) its)),
          nxt := Suc (Suc (nxt st))\<rparr>)"
proof -
  have ne: "x \<noteq> bx" "bx \<noteq> nxt st" "bx \<noteq> Suc (nxt st)" "x \<noteq> nxt st" "x \<noteq> Suc (nxt st)"
    using assms(1,3,4,5) by auto
  show ?thesis
    using assms(1,2,3,6) ne
    by (simp add: Storage_getattr_def obj_contains_def vivify_def Storage_init_def alloc_def
        obj_setitem_def type_is_dict_def)
qed

lemma getitem_helper_fresh:
  assumes "heap st x = Some (Node m)"
    and "s_storage m = VRef bx"
    and "heap st bx = Some (Dict kd its)"
    and "x < nxt st" and "bx < nxt st"
    and "first_seg key \<notin> fst ` set its"
  shows "\<exists>a ba m' st'. getitem_helper key (VRef x) st = (Inr (VRef a), st')
           \<and> nxt st \<le> a \<and> a < nxt st' \<and> nxt st \<le> ba \<and> ba < nxt st'
           \<and> heap st' a = Some (Node m') \<and> s_storage m' = VRef ba
           \<and> heap st' ba = Some (Dict OrderedDict [])"
  using assms
proof (induction key arbitrary: st x m bx kd its rule: length_induct)
  case (1 key)
  let ?seg = "first_seg key"
  let ?st1 = "st\<lparr>heap := (heap st)
             (nxt st \<mapsto> Dict OrderedDict [],
              Suc (nxt st) \<mapsto> Node \<lparr>s_storage = VRef (nxt st), s_parent = VRef bx,
                                       s_parent_name = VStr ?seg, s_readonly = VBool False\<rparr>,
              bx \<mapsto> Dict kd (AList.update ?seg (VRef (Suc (nxt st))) its)),
          nxt := Suc (Suc (nxt st))\<rparr>"
  have ne: "bx \<noteq> nxt st" "bx \<noteq> Suc (nxt st)" using "1.prems"(5) by auto
  have g: "Storage_getattr x ?seg st = (Inr (VRef (Suc (nxt st))), ?st1)"
    by (rule Storage_getattr_absent [OF "1.prems"])
  have pg: "py_getitem (VRef x) ?seg st = (Inr (VRef (Suc (nxt st))), ?st1)"
    using g "1.prems"(1) by (simp add: py_getitem_def)
  show ?case
  proof (cases "has_dot key")
    case False
    then have "first_seg key = key"
      by (simp add: first_seg_def has_dot_def split_dot_no_dot)
    with pg False have "getitem_helper key (VRef x) st = (Inr (VRef (Suc (nxt st))), ?st1)"
      by (simp add: getitem_helper.simps [of key])
    moreover have "heap ?st1 (Suc (nxt st)) = Some (Node \<lparr>s_storage = VRef (nxt st),
        s_parent = VRef bx, s_parent_name = VStr ?seg, s_readonly = VBool False\<rparr>)"
      using ne by simp
    moreover have "heap ?st1 (nxt st) = Some (Dict OrderedDict [])"
      using ne by simp
    ultimately show ?thesis
      by (rule_tac x = "Suc (nxt st)" in exI, rule_tac x = "nxt st" in exI,
          rule_tac x = "\<lparr>s_storage = VRef (nxt st), s_parent = VRef bx,
            s_parent_name = VStr ?seg, s_readonly = VBool False\<rparr>" in exI,
          rule_tac x = "?st1" in exI) simp
  next
    case True
    have step: "getitem_helper key (VRef x) st
        = getitem_helper (rest_segs key) (VRef (Suc (nxt st))) ?st1"
      using pg True by (simp add: getitem_helper.simps [of key])
    have shorter: "length (rest_segs key) < length key"
      using True by (rule rest_segs_shorter)
    have "\<exists>a ba m' st'. getitem_helper (rest_segs key) (VRef (Suc (nxt st))) ?st1
             = (Inr (VRef a), st')
           \<and> nxt ?st1 \<le> a \<and> a < nxt st' \<and> nxt ?st1 \<le> ba \<and> ba < nxt st'
           \<and> heap st' a = Some (Node m') \<and> s_storage m' = VRef ba
           \<and> heap st' ba = Some (Dict OrderedDict [])"
    proof (rule "1.IH" [rule_format, OF shorter])
      show "heap ?st1 (Suc (nxt st)) = Some (Node \<lparr>s_storage = VRef (nxt st),
        s_parent = VRef bx, s_parent_name = VStr ?seg, s_readonly = VBool False\<rparr>)"
        using ne by simp
      show "s_storage \<lparr>s_storage = VRef (nxt st), s_parent = VRef bx,
          s_parent_name = VStr ?seg, s_readonly = VBool False\<rparr> = VRef (nxt st)" by simp
      show "heap ?st1 (nxt st) = Some (Dict OrderedDict [])" using ne by simp
      show "Suc (nxt st) < nxt ?st1" by simp
      show "nxt st < nxt ?st1" by simp
      show "first_seg (rest_segs key) \<notin> fst ` set []" by simp
    qed
    then obtain a ba m' st' where r:
      "getitem_helper (rest_segs key) (VRef (Suc (nxt st))) ?st1 = (Inr (VRef a), st')"
      "nxt ?st1 \<le> a" "a < nxt st'" "nxt ?st1 \<le> ba" "ba < nxt st'"
      "heap st' a = Some (Node m')" "s_storage m' = VRef ba"
      "heap st' ba = Some (Dict OrderedDict [])"
      by blast
    from r(2,4) have "nxt st \<le> a" "nxt st \<le> ba" by simp_all
    with r step show ?thesis by auto
  qed
qed

text \<open>
  C7. Let the root node's backing mapping be a dictionary that lacks the first segment of
  the path \<open>p\<close>; then no segment of \<open>p\<close> is set at its level, since every deeper
  level is a node the read itself creates. \<^verbatim>\<open>store[p]\<close> raises nothing: it returns a
  reference to a node allocated during the read (its address is not below the allocation
  pointer of the state before), whose \<^verbatim>\<open>items()\<close> are empty, so that it compares
  equal to the empty mapping, and the watcher flag is on again. The hypotheses
  \<open>root st < nxt st\<close> and \<open>b < nxt st\<close> say that the root node and its backing mapping
  are allocated objects.
\<close>

theorem getitem_unset_path:
  assumes "heap st (root st) = Some (Node n)"
    and "s_storage n = VRef b"
    and "heap st b = Some (Dict kd its)"
    and "root st < nxt st" and "b < nxt st"
    and "first_seg p \<notin> fst ` set its"
  shows "\<exists>a. fst (Settings_getitem p st) = Inr (VRef a) \<and> nxt st \<le> a
           \<and> Storage_items a (snd (Settings_getitem p st)) = Inr []
           \<and> is_watcher_on (snd (Settings_getitem p st))"
proof -
  let ?st0 = "watcher_off st"
  have "\<exists>a ba m' st'. getitem_helper p (VRef (root ?st0)) ?st0 = (Inr (VRef a), st')
           \<and> nxt ?st0 \<le> a \<and> a < nxt st' \<and> nxt ?st0 \<le> ba \<and> ba < nxt st'
           \<and> heap st' a = Some (Node m') \<and> s_storage m' = VRef ba
           \<and> heap st' ba = Some (Dict OrderedDict [])"
    by (rule getitem_helper_fresh [where m = n and bx = b and kd = kd and its = its])
       (use assms in \<open>simp_all add: watcher_off_def\<close>)
  then obtain a ba m' st' where r:
      "getitem_helper p (VRef (root ?st0)) ?st0 = (Inr (VRef a), st')"
      "nxt ?st0 \<le> a" "heap st' a = Some (Node m')" "s_storage m' = VRef ba"
      "heap st' ba = Some (Dict OrderedDict [])"
    by blast
  then show ?thesis
    by (intro exI [of _ a])
       (simp add: Settings_getitem_def watcher_on_def watcher_off_def Storage_items_def
          obj_items_def)
qed

theorem getitem_unset_path_witness:
  "first_seg ''a.b.c'' \<notin> fst ` set [(''x'', VInt 1)]
   \<and> fst (Settings_getitem ''a.b.c'' (flat_store False [(''x'', VInt 1)])) = Inr (VRef 7)
   \<and> Storage_items 7 (snd (Settings_getitem ''a.b.c'' (flat_store False [(''x'', VInt 1)])))
       = Inr []
   \<and> is_watcher_on (snd (Settings_getitem ''a.b.c'' (flat_store False [(''x'', VInt 1)])))
   \<and> Settings_keys (snd (Settings_getitem ''a.b.c'' (flat_store False [(''x'', VInt 1)])))
       = Inr [''x'', ''a'']"
  using getitem_unset_path [of "flat_store False [(''x'', VInt 1)]"
      "\<lparr>s_storage = VRef 0, s_parent = VNone, s_parent_name = VStr [], s_readonly = VBool False\<rparr>"
      0 Document "[(''x'', VInt 1)]" "''a.b.c''"]
  by (simp add: eval_defs)

lemma dotted_key [simp]:
  "CHR ''.'' \<notin> set a \<Longrightarrow> has_dot (a @ CHR ''.'' # r)"
  "CHR ''.'' \<notin> set a \<Longrightarrow> first_seg (a @ CHR ''.'' # r) = a"
  "CHR ''.'' \<notin> set a \<Longrightarrow> rest_segs (a @ CHR ''.'' # r) = r"
  by (simp_all add: has_dot_append first_seg_append rest_segs_append)

lemma dotted_key_empty [simp]:
  "first_seg (CHR ''.'' # r) = []" "rest_segs (CHR ''.'' # r) = r"
  using first_seg_append [of "[]" r] rest_segs_append [of "[]" r] by simp_all

lemma update_last:
  "a \<notin> fst ` set its \<Longrightarrow> AList.update a x (its @ [(a, y)]) = its @ [(a, x)]"
  by (induction its) auto

text \<open>The first dotted write under an absent top-level key.\<close>

lemma setitem_two_segments_absent:
  assumes "heap st (root st) = Some (Node n)"
    and "s_storage n = VRef bk"
    and "heap st bk = Some (Dict kd its)"
    and "s_parent n = VNone"
    and "s_readonly n = VBool False"
    and "root st < nxt st" and "bk < nxt st"
    and "a \<notin> fst ` set its"
    and "CHR ''.'' \<notin> set a" and "CHR ''.'' \<notin> set b"
    and "a \<notin> set storage_attrs"
    and "r = Settings_setitem (a @ CHR ''.'' # b) v1 st"
  shows "fst r = Inr () \<and> root (snd r) = root st \<and> nxt (snd r) = Suc (Suc (Suc (nxt st)))
       \<and> heap (snd r) (root st) = Some (Node n)
       \<and> heap (snd r) bk = Some (Dict kd (its @ [(a, VRef (Suc (Suc (nxt st))))]))
       \<and> heap (snd r) (Suc (Suc (nxt st))) = Some (Dict OrderedDict [(b, v1)])"
proof -
  have ne: "root st \<noteq> bk" "bk \<noteq> nxt st" "bk \<noteq> Suc (nxt st)" "bk \<noteq> Suc (Suc (nxt st))"
    "root st \<noteq> nxt st" "root st \<noteq> Suc (nxt st)" "root st \<noteq> Suc (Suc (nxt st))"
    using assms(1,3,6,7) by auto
  have g: "Storage_getattr (root st) a (st\<lparr>is_watcher_on := False\<rparr>) =
     (Inr (VRef (Suc (nxt st))),
      st\<lparr>is_watcher_on := False, heap := (heap st)
             (nxt st \<mapsto> Dict OrderedDict [],
              Suc (nxt st) \<mapsto> Node \<lparr>s_storage = VRef (nxt st), s_parent = VRef bk,
                                       s_parent_name = VStr a, s_readonly = VBool False\<rparr>,
              bk \<mapsto> Dict kd (AList.update a (VRef (Suc (nxt st))) its)),
          nxt := Suc (Suc (nxt st))\<rparr>)"
    using Storage_getattr_absent [of "st\<lparr>is_watcher_on := False\<rparr>" "root st" n bk kd its a] assms
    by simp
  show ?thesis
    unfolding assms(12)
    using assms(1-5,9-11) ne
    by (simp add: Settings_setitem_def watcher_off_def g setitem_helper.simps [of _ b]
        or_new_dict_def py_truthy_def obj_len_def alloc_def py_setitem_def obj_setitem_def
        Storage_setattr_def obj_contains_def get_parent_def watcher_on_def
        has_dot_def update_fresh [OF assms(8)] update_last [OF assms(8)])
qed

text \<open>A dotted write under a top-level key that holds the one-item \<^verbatim>\<open>OrderedDict\<close>
  \<open>d\<close>: the read \<^verbatim>\<open>self.__storage[a]\<close> wraps a copy of \<open>d\<close> in a new node, the helper
  adds the second key to that node, and the node itself is stored under \<open>a\<close>.\<close>

lemma setitem_two_segments_sibling:
  assumes "heap st (root st) = Some (Node n)"
    and "s_storage n = VRef bk"
    and "heap st bk = Some (Dict kd its)"
    and "s_parent n = VNone"
    and "s_readonly n = VBool False"
    and "root st < nxt st" and "bk < nxt st" and "d < nxt st" and "d \<noteq> bk"
    and "map_of its a = Some (VRef d)"
    and "heap st d = Some (Dict OrderedDict [(b, v1)])"
    and "CHR ''.'' \<notin> set a" and "CHR ''.'' \<notin> set c"
    and "a \<notin> set storage_attrs" and "b \<notin> set storage_attrs" and "c \<notin> set storage_attrs"
    and "b \<noteq> c"
    and "r = Settings_setitem (a @ CHR ''.'' # c) v2 st"
  shows "fst r = Inr () \<and> root (snd r) = root st
       \<and> heap (snd r) (root st) = Some (Node n)
       \<and> obj_getitem (VRef bk) a (snd r) = Inr (VRef (Suc (nxt st)))
       \<and> heap (snd r) (Suc (nxt st)) =
           Some (Node \<lparr>s_storage = VRef (nxt st), s_parent = VRef bk,
                        s_parent_name = VStr a, s_readonly = VBool False\<rparr>)
       \<and> heap (snd r) (nxt st) = Some (Dict OrderedDict [(b, v1), (c, v2)])"
proof -
  have ne: "root st \<noteq> bk" "bk \<noteq> nxt st" "bk \<noteq> Suc (nxt st)"
    "root st \<noteq> nxt st" "root st \<noteq> Suc (nxt st)" "d \<noteq> nxt st" "d \<noteq> Suc (nxt st)"
    "root st \<noteq> d"
    using assms(1,3,6,7,8,11) by auto
  have present: "a \<in> fst ` set its"
    using assms(10) by (metis domI dom_map_of_conv_image_fst)
  show ?thesis
    unfolding assms(18)
    using assms(1-5,9-17) ne present
    by (simp add: Settings_setitem_def watcher_off_def watcher_on_def has_dot_def
        Storage_getattr_def obj_contains_def obj_getitem_def type_is_dict_def
        wrap_dict_def Storage_init_def alloc_def obj_keys_def obj_items_def
        Storage_setattr_def py_truthy_def obj_setitem_def get_parent_def set_parent_value_def
        setitem_helper.simps [of _ c] or_new_dict_def obj_len_def py_setitem_def
        update_conv' dom_update Let_def)
qed

text \<open>Reading a top-level key that holds a node returns that node.\<close>

lemma getitem_stored_node:
  assumes "heap st (root st) = Some (Node n)"
    and "s_storage n = VRef bk"
    and "obj_getitem (VRef bk) a st = Inr (VRef x)"
    and "heap st x = Some (Node m)"
    and "\<not> has_dot a"
  shows "Settings_getitem a st = (Inr (VRef x), watcher_on st)"
proof -
  from assms(3) obtain kd its where d: "heap st bk = Some (Dict kd its)"
      "map_of its a = Some (VRef x)"
    by (auto simp: obj_getitem_def split: option.splits obj.splits)
  then have "a \<in> fst ` set its" by (metis domI dom_map_of_conv_image_fst)
  with assms d show ?thesis
    by (simp add: Settings_getitem_def getitem_helper.simps [of a] py_getitem_def
        Storage_getattr_def obj_contains_def obj_getitem_def type_is_dict_def
        watcher_off_def watcher_on_def)
qed

text \<open>
  C2. Take a store whose root node is not read-only and whose backing mapping is a
  dictionary without the key \<open>a\<close>, and three segments \<open>a\<close>, \<open>b\<close>, \<open>c\<close> without dots,
  none of them an attribute name of \<^verbatim>\<open>Storage\<close>, with \<open>b \<noteq> c\<close> (the claim's literal
  \<^verbatim>\<open>"a"\<close>, \<^verbatim>\<open>"b"\<close>, \<^verbatim>\<open>"c"\<close> are such segments). Then \<^verbatim>\<open>store["a.b"] = v1\<close> and
  \<^verbatim>\<open>store["a.c"] = v2\<close> both return normally, and \<^verbatim>\<open>store["a"]\<close> afterwards returns a
  node whose \<^verbatim>\<open>items()\<close> are exactly \<open>[(b, v1), (c, v2)]\<close>: it compares equal to the
  mapping \<^verbatim>\<open>{b: v1, c: v2}\<close>, and the second write kept the first key and its value.
  The hypotheses \<open>root st < nxt st\<close> and \<open>bk < nxt st\<close> say that the root node and its
  backing mapping are allocated objects; \<open>s_parent n = VNone\<close> holds for the root node
  that \<^verbatim>\<open>Settings.__init__\<close> builds.
\<close>

theorem dotted_writes_preserve_siblings:
  assumes "heap st (root st) = Some (Node n)"
    and "s_storage n = VRef bk"
    and "heap st bk = Some (Dict kd its)"
    and "s_parent n = VNone"
    and "s_readonly n = VBool False"
    and "root st < nxt st" and "bk < nxt st"
    and "a \<notin> fst ` set its"
    and "CHR ''.'' \<notin> set a" and "CHR ''.'' \<notin> set b" and "CHR ''.'' \<notin> set c"
    and "a \<notin> set storage_attrs" and "b \<notin> set storage_attrs" and "c \<notin> set storage_attrs"
    and "b \<noteq> c"
  shows "(let r1 = Settings_setitem (a @ CHR ''.'' # b) v1 st;
              r2 = Settings_setitem (a @ CHR ''.'' # c) v2 (snd r1);
              r3 = Settings_getitem a (snd r2)
          in fst r1 = Inr () \<and> fst r2 = Inr ()
             \<and> fst r3 = Inr (VRef (Suc (nxt (snd r1))))
             \<and> Storage_items (Suc (nxt (snd r1))) (snd r3) = Inr [(b, v1), (c, v2)])"
proof -
  define r1 where "r1 = Settings_setitem (a @ CHR ''.'' # b) v1 st"
  define r2 where "r2 = Settings_setitem (a @ CHR ''.'' # c) v2 (snd r1)"
  define r3 where "r3 = Settings_getitem a (snd r2)"
  let ?d = "Suc (Suc (nxt st))"
  let ?its1 = "its @ [(a, VRef ?d)]"
  have s1: "fst r1 = Inr ()" "root (snd r1) = root st" "nxt (snd r1) = Suc ?d"
    "heap (snd r1) (root st) = Some (Node n)"
    "heap (snd r1) bk = Some (Dict kd ?its1)"
    "heap (snd r1) ?d = Some (Dict OrderedDict [(b, v1)])"
    using setitem_two_segments_absent [OF assms(1-10,12) r1_def] by simp_all
  have bound: "map_of ?its1 a = Some (VRef ?d)"
    using assms(8) by (simp add: map_of_eq_None_iff [THEN iffD2] map_add_def)
  have s2: "fst r2 = Inr ()" "root (snd r2) = root st"
    "heap (snd r2) (root st) = Some (Node n)"
    "obj_getitem (VRef bk) a (snd r2) = Inr (VRef (Suc (nxt (snd r1))))"
    "heap (snd r2) (Suc (nxt (snd r1))) =
       Some (Node \<lparr>s_storage = VRef (nxt (snd r1)), s_parent = VRef bk,
                    s_parent_name = VStr a, s_readonly = VBool False\<rparr>)"
    "heap (snd r2) (nxt (snd r1)) = Some (Dict OrderedDict [(b, v1), (c, v2)])"
    using setitem_two_segments_sibling [where st = "snd r1" and n = n and bk = bk
        and kd = kd and its = ?its1 and d = ?d and a = a and b = b and c = c
        and ?v1.0 = v1 and ?v2.0 = v2 and r = r2]
      s1 assms(2,4,5,6,7,9,11-15) bound r2_def
    by simp_all
  have "\<not> has_dot a" using assms(9) by (simp add: has_dot_def)
  then have g: "r3 = (Inr (VRef (Suc (nxt (snd r1)))), watcher_on (snd r2))"
    unfolding r3_def
    using getitem_stored_node [where st = "snd r2" and n = n and bk = bk and a = a
        and x = "Suc (nxt (snd r1))"] s2 assms(2)
    by simp
  have "Storage_items (Suc (nxt (snd r1))) (snd r3) = Inr [(b, v1), (c, v2)]"
    using g s2(5,6) by (simp add: Storage_items_def obj_items_def watcher_on_def)
  with s1(1) s2(1) g show ?thesis
    unfolding Let_def r1_def [symmetric] r2_def [symmetric] r3_def [symmetric] by simp
qed

theorem dotted_writes_preserve_siblings_witness:
  "heap (flat_store False []) (root (flat_store False []))
     = Some (Node \<lparr>s_storage = VRef 0, s_parent = VNone, s_parent_name = VStr [],
                    s_readonly = VBool False\<rparr>)
   \<and> heap (flat_store False []) 0 = Some (Dict Document [])
   \<and> root (flat_store False []) < nxt (flat_store False [])
   \<and> ''a'' \<notin> set storage_attrs \<and> ''b'' \<notin> set storage_attrs \<and> ''c'' \<notin> set storage_attrs
   \<and> fst (Settings_setitem ''a.b'' (VInt 1) (flat_store False [])) = Inr ()
   \<and> fst (Settings_setitem ''a.c'' (VStr ''x'')
            (snd (Settings_setitem ''a.b'' (VInt 1) (flat_store False [])))) = Inr ()
   \<and> fst (Settings_getitem ''a''
            (snd (Settings_setitem ''a.c'' (VStr ''x'')
               (snd (Settings_setitem ''a.b'' (VInt 1) (flat_store False [])))))) = Inr (VRef 6)
   \<and> Storage_items 6
        (snd (Settings_getitem ''a''
            (snd (Settings_setitem ''a.c'' (VStr ''x'')
               (snd (Settings_setitem ''a.b'' (VInt 1) (flat_store False [])))))))
       = Inr [(''b'', VInt 1), (''c'', VStr ''x'')]"
  using dotted_writes_preserve_siblings [of "flat_store False []"
      "\<lparr>s_storage = VRef 0, s_parent = VNone, s_parent_name = VStr [], s_readonly = VBool False\<rparr>"
      0 Document "[]" "''a''" "''b''" "''c''" "VInt 1" "VStr ''x''"]
  by (simp add: eval_defs)

text \<open>The copy loop of \<^verbatim>\<open>Storage.__getattr__\<close>, run on a new node \<open>r1\<close> with backing
  mapping \<open>f\<close>: every item of the source dictionary \<open>d\<close> whose key is not an attribute
  name is appended to \<open>f\<close>. Each step also stores \<open>f\<close> in the parent \<open>bk\<close> under the
  parent name, which changes neither \<open>f\<close>, \<open>d\<close> nor the node.\<close>

lemma copy_items_appends:
  assumes "heap st r1 = Some (Node \<lparr>s_storage = VRef f, s_parent = VRef bk,
                                      s_parent_name = VStr p, s_readonly = VBool False\<rparr>)"
    and "heap st f = Some (Dict OrderedDict acc)"
    and "heap st d = Some (Dict dk ditems)"
    and "heap st bk = Some (Dict kd bits)"
    and "f \<noteq> d" and "f \<noteq> bk" and "d \<noteq> bk"
    and "\<forall>(k, v) \<in> set xs. map_of ditems k = Some v"
    and "distinct (map fst (acc @ xs))"
    and "fst ` set xs \<inter> set storage_attrs = {}"
  shows "\<exists>st'. copy_items r1 (VRef d) (map fst xs) st = (Inr (), st')
           \<and> heap st' f = Some (Dict OrderedDict (acc @ xs))
           \<and> heap st' r1 = heap st r1 \<and> nxt st' = nxt st
           \<and> is_watcher_on st' = is_watcher_on st"
  using assms
proof (induction xs arbitrary: st acc bits)
  case Nil
  then show ?case by simp
next
  case (Cons x xs)
  obtain k v where x: "x = (k, v)" by (cases x)
  have ne: "r1 \<noteq> f" "r1 \<noteq> d" "r1 \<noteq> bk"
    using Cons.prems(1-4) by auto
  have k: "k \<notin> set storage_attrs" "k \<notin> fst ` set acc" "map_of ditems k = Some v"
    using Cons.prems(8,9,10) x by auto
  let ?h1 = "(heap st)(f \<mapsto> Dict OrderedDict (acc @ [(k, v)]))"
  let ?st1 = "if p = [] then st\<lparr>heap := ?h1\<rparr>
              else st\<lparr>heap := ?h1(bk \<mapsto> Dict kd (AList.update p (VRef f) bits))\<rparr>"
  have step: "Storage_setattr r1 k v st = (Inr (), ?st1)"
    using Cons.prems(1-7) k ne
    by (simp add: Storage_setattr_def py_truthy_def obj_setitem_def get_parent_def
        set_parent_value_def update_fresh)
  have get: "obj_getitem (VRef d) k st = Inr v"
    using Cons.prems(3) k by (simp add: obj_getitem_def)
  have "\<exists>st'. copy_items r1 (VRef d) (map fst xs) ?st1 = (Inr (), st')
           \<and> heap st' f = Some (Dict OrderedDict ((acc @ [(k, v)]) @ xs))
           \<and> heap st' r1 = heap ?st1 r1 \<and> nxt st' = nxt ?st1
           \<and> is_watcher_on st' = is_watcher_on ?st1"
  proof (rule Cons.IH [where bits = "if p = [] then bits else AList.update p (VRef f) bits"])
    show "heap ?st1 r1 = Some (Node \<lparr>s_storage = VRef f, s_parent = VRef bk,
                                      s_parent_name = VStr p, s_readonly = VBool False\<rparr>)"
      using Cons.prems(1) ne by simp
    show "heap ?st1 f = Some (Dict OrderedDict (acc @ [(k, v)]))"
      using Cons.prems(6) by simp
    show "heap ?st1 d = Some (Dict dk ditems)"
      using Cons.prems(3,5,7) by simp
    show "heap ?st1 bk = Some (Dict kd (if p = [] then bits else AList.update p (VRef f) bits))"
      using Cons.prems(4,6) by simp
    show "f \<noteq> d" "f \<noteq> bk" "d \<noteq> bk" by fact+
    show "\<forall>(k, v) \<in> set xs. map_of ditems k = Some v"
      using Cons.prems(8) by simp
    show "distinct (map fst ((acc @ [(k, v)]) @ xs))"
      using Cons.prems(9) x by simp
    show "fst ` set xs \<inter> set storage_attrs = {}"
      using Cons.prems(10) by auto
  qed
  then obtain st' where r: "copy_items r1 (VRef d) (map fst xs) ?st1 = (Inr (), st')"
      "heap st' f = Some (Dict OrderedDict ((acc @ [(k, v)]) @ xs))"
      "heap st' r1 = heap ?st1 r1" "nxt st' = nxt ?st1"
      "is_watcher_on st' = is_watcher_on ?st1"
    by blast
  have "copy_items r1 (VRef d) (map fst (x # xs)) st = (Inr (), st')"
    using x get step r(1) by simp
  moreover have "heap st' r1 = heap st r1" using r(3) ne by simp
  moreover have "nxt st' = nxt st" "is_watcher_on st' = is_watcher_on st"
    using r(4,5) by simp_all
  ultimately show ?case using r(2) x by simp
qed

text \<open>Wrapping a stored \<^verbatim>\<open>dict\<close> or \<^verbatim>\<open>OrderedDict\<close>: the new node holds the items of the
  stored dictionary, in the same order.\<close>

lemma wrap_dict_copies:
  assumes "s_storage n = VRef bk"
    and "heap st bk = Some (Dict kd bits)"
    and "heap st d = Some (Dict dk ditems)"
    and "d \<noteq> bk" and "d < nxt st" and "bk < nxt st"
    and "distinct (map fst ditems)"
    and "fst ` set ditems \<inter> set storage_attrs = {}"
  shows "\<exists>st'. wrap_dict n p (VRef d) st = (Inr (VRef (Suc (nxt st))), st')
           \<and> Storage_items (Suc (nxt st)) st' = Inr ditems
           \<and> is_watcher_on st' = is_watcher_on st"
proof -
  let ?node = "\<lparr>s_storage = VRef (nxt st), s_parent = VRef bk,
                 s_parent_name = VStr p, s_readonly = VBool False\<rparr>"
  let ?st1 = "st\<lparr>heap := (heap st)(nxt st \<mapsto> Dict OrderedDict [], Suc (nxt st) \<mapsto> Node ?node),
                  nxt := Suc (Suc (nxt st))\<rparr>"
  have ne: "d \<noteq> nxt st" "d \<noteq> Suc (nxt st)" "bk \<noteq> nxt st" "bk \<noteq> Suc (nxt st)"
    using assms(5,6) by auto
  have init: "Storage_init VNone (s_storage n) (VStr p) (VBool False) st = (Suc (nxt st), ?st1)"
    using assms(1) by (simp add: Storage_init_def alloc_def)
  have keys: "obj_keys (VRef d) ?st1 = Inr (map fst ditems)"
    using assms(3) ne by (simp add: obj_keys_def obj_items_def)
  have all: "\<forall>(k, v) \<in> set ditems. map_of ditems k = Some v"
    using assms(7) by auto
  have "\<exists>st'. copy_items (Suc (nxt st)) (VRef d) (map fst ditems) ?st1 = (Inr (), st')
           \<and> heap st' (nxt st) = Some (Dict OrderedDict ([] @ ditems))
           \<and> heap st' (Suc (nxt st)) = heap ?st1 (Suc (nxt st)) \<and> nxt st' = nxt ?st1
           \<and> is_watcher_on st' = is_watcher_on ?st1"
  proof (rule copy_items_appends [where bk = bk and p = p and dk = dk and ditems = ditems
        and kd = kd and bits = bits])
    show "heap ?st1 (Suc (nxt st)) = Some (Node ?node)" by simp
    show "heap ?st1 (nxt st) = Some (Dict OrderedDict [])" by simp
    show "heap ?st1 d = Some (Dict dk ditems)" using assms(3) ne by simp
    show "heap ?st1 bk = Some (Dict kd bits)" using assms(2) ne by simp
    show "nxt st \<noteq> d" "nxt st \<noteq> bk" "d \<noteq> bk" using ne assms(4) by auto
    show "\<forall>(k, v) \<in> set ditems. map_of ditems k = Some v" by (rule all)
    show "distinct (map fst ([] @ ditems))" using assms(7) by simp
    show "fst ` set ditems \<inter> set storage_attrs = {}" by (rule assms(8))
  qed
  then obtain st' where c: "copy_items (Suc (nxt st)) (VRef d) (map fst ditems) ?st1 = (Inr (), st')"
      "heap st' (nxt st) = Some (Dict OrderedDict ditems)"
      "heap st' (Suc (nxt st)) = Some (Node ?node)"
      "is_watcher_on st' = is_watcher_on st"
    by auto
  have "wrap_dict n p (VRef d) st = (Inr (VRef (Suc (nxt st))), st')"
    using init keys c(1) by (simp add: wrap_dict_def)
  moreover have "Storage_items (Suc (nxt st)) st' = Inr ditems"
    using c(2,3) by (simp add: Storage_items_def obj_items_def)
  ultimately show ?thesis using c(4) by blast
qed

lemma Storage_items_watcher_on: "Storage_items a (watcher_on st) = Storage_items a st"
  by (auto simp: Storage_items_def obj_items_def watcher_on_def
      split: option.splits obj.splits val.splits)

text \<open>
  C3, as amended. Let \<open>p\<close> be a key without a dot that is not an attribute name of
  \<^verbatim>\<open>Storage\<close>, \<open>v\<close> a value other than \<^verbatim>\<open>None\<close>, and the store one where \<open>p\<close> may be
  written (the root is not read-only, or \<open>p\<close> is absent). Then \<^verbatim>\<open>store[p] = v\<close> returns
  normally and \<^verbatim>\<open>store[p]\<close> returns \<open>v\<close> itself, unless \<open>v\<close> is a \<^verbatim>\<open>dict\<close> or an
  \<^verbatim>\<open>OrderedDict\<close>: then it returns a new node whose \<^verbatim>\<open>items()\<close> are the items of \<open>v\<close>,
  which is what \<^verbatim>\<open>Storage.__eq__\<close> compares. The last hypothesis describes such a
  dictionary: an allocated object other than the root's backing mapping, with distinct
  keys (as every dictionary has), none of them an attribute name of \<^verbatim>\<open>Storage\<close>.
\<close>

theorem set_then_get_top_level:
  assumes "heap st (root st) = Some (Node n)"
    and "s_storage n = VRef bk"
    and "heap st bk = Some (Dict kd its)"
    and "s_parent n = VNone"
    and "s_readonly n = VBool ro"
    and "ro \<longrightarrow> p \<notin> fst ` set its"
    and "root st < nxt st" and "bk < nxt st"
    and "\<not> has_dot p"
    and "p \<notin> set storage_attrs"
    and "v \<noteq> VNone"
    and "\<And>d dk ditems. v = VRef d \<Longrightarrow> heap st d = Some (Dict dk ditems) \<Longrightarrow> dk \<noteq> Document
           \<Longrightarrow> d < nxt st \<and> d \<noteq> bk \<and> distinct (map fst ditems)
               \<and> fst ` set ditems \<inter> set storage_attrs = {}"
  shows "(let r1 = Settings_setitem p v st;
              r2 = Settings_getitem p (snd r1)
          in fst r1 = Inr ()
             \<and> (if type_is_dict v st
                 then fst r2 = Inr (VRef (Suc (nxt st)))
                      \<and> Storage_items (Suc (nxt st)) (snd r2) = obj_items v st
                 else fst r2 = Inr v))"
proof -
  let ?st1 = "st\<lparr>is_watcher_on := True,
                  heap := (heap st)(bk \<mapsto> Dict kd (AList.update p v its))\<rparr>"
  have rb: "root st \<noteq> bk" using assms(1,3) by auto
  have set: "Settings_setitem p v st = (Inr (), ?st1)"
    using assms(1-6,9,10)
    by (cases ro)
       (simp_all add: Settings_setitem_def Storage_setattr_def watcher_off_def watcher_on_def
          py_truthy_def obj_contains_def obj_setitem_def get_parent_def)
  let ?st2 = "?st1\<lparr>is_watcher_on := False\<rparr>"
  have facts: "heap ?st2 (root ?st2) = Some (Node n)"
    "heap ?st2 bk = Some (Dict kd (AList.update p v its))"
    using assms(1) rb by simp_all
  have pres: "obj_contains p (VRef bk) ?st2 = Inr True" "obj_getitem (VRef bk) p ?st2 = Inr v"
    by (simp_all add: obj_contains_def obj_getitem_def dom_update update_conv')
  show ?thesis
  proof (cases "type_is_dict v st")
    case False
    have "\<not> type_is_dict v ?st2"
    proof (cases "v = VRef bk")
      case True
      with False assms(3) show ?thesis by (simp add: type_is_dict_def)
    next
      case nb: False
      with False show ?thesis
        by (auto simp: type_is_dict_def split: val.splits option.splits obj.splits)
    qed
    then have "Storage_getattr (root st) p ?st2 = (Inr v, ?st2)"
      using facts pres assms(2,11) by (simp add: Storage_getattr_def)
    then have "fst (Settings_getitem p ?st1) = Inr v"
      using assms(9) facts(1)
      by (simp add: Settings_getitem_def getitem_helper.simps [of p] py_getitem_def
          watcher_off_def)
    with set False show ?thesis by (simp add: Let_def)
  next
    case True
    then obtain d dk ditems where d: "v = VRef d" "heap st d = Some (Dict dk ditems)"
        "dk \<noteq> Document"
      by (auto simp: type_is_dict_def split: val.splits option.splits obj.splits)
    from assms(12) [OF d] have dd: "d < nxt st" "d \<noteq> bk" "distinct (map fst ditems)"
        "fst ` set ditems \<inter> set storage_attrs = {}" by auto
    have td: "type_is_dict v ?st2"
      using True d dd(2) by (simp add: type_is_dict_def)
    have "\<exists>st'. wrap_dict n p (VRef d) ?st2 = (Inr (VRef (Suc (nxt ?st2))), st')
           \<and> Storage_items (Suc (nxt ?st2)) st' = Inr ditems
           \<and> is_watcher_on st' = is_watcher_on ?st2"
      by (rule wrap_dict_copies [where bk = bk and kd = kd
            and bits = "AList.update p v its" and dk = dk])
         (use assms(2,8) d dd in simp_all)
    then obtain st' where w: "wrap_dict n p (VRef d) ?st2 = (Inr (VRef (Suc (nxt st))), st')"
        "Storage_items (Suc (nxt st)) st' = Inr ditems"
      by auto
    have "Storage_getattr (root st) p ?st2 = (Inr (VRef (Suc (nxt st))), st')"
      using facts pres assms(2,11) td w(1) d(1) by (simp add: Storage_getattr_def)
    then have "Settings_getitem p ?st1 = (Inr (VRef (Suc (nxt st))), watcher_on st')"
      using assms(9) facts(1)
      by (simp add: Settings_getitem_def getitem_helper.simps [of p] py_getitem_def
          watcher_off_def)
    moreover have "Storage_items (Suc (nxt st)) (watcher_on st') = Inr ditems"
      using w(2) by (simp add: Storage_items_watcher_on)
    moreover have "obj_items v st = Inr ditems"
      using d by (simp add: obj_items_def)
    ultimately show ?thesis using set True by (simp add: Let_def)
  qed
qed

theorem set_then_get_top_level_witness:
  "heap dict_value_store (root dict_value_store)
     = Some (Node \<lparr>s_storage = VRef 0, s_parent = VNone, s_parent_name = VStr [],
                    s_readonly = VBool False\<rparr>)
   \<and> heap dict_value_store 0 = Some (Dict Document [])
   \<and> heap dict_value_store 1
       = Some (Dict PlainDict [(''host'', VStr ''h''), (''port'', VInt 5)])
   \<and> root dict_value_store < nxt dict_value_store
   \<and> ''db'' \<notin> set storage_attrs \<and> \<not> has_dot ''db''
   \<and> fst (Settings_setitem ''db'' (VRef 1) dict_value_store) = Inr ()
   \<and> type_is_dict (VRef 1) dict_value_store
   \<and> fst (Settings_getitem ''db'' (snd (Settings_setitem ''db'' (VRef 1) dict_value_store)))
       = Inr (VRef 4)
   \<and> Storage_items 4
        (snd (Settings_getitem ''db'' (snd (Settings_setitem ''db'' (VRef 1) dict_value_store))))
       = Inr [(''host'', VStr ''h''), (''port'', VInt 5)]
   \<and> fst (Settings_getitem ''n'' (snd (Settings_setitem ''n'' (VInt 7) dict_value_store)))
       = Inr (VInt 7)"
  using set_then_get_top_level [of dict_value_store
      "\<lparr>s_storage = VRef 0, s_parent = VNone, s_parent_name = VStr [], s_readonly = VBool False\<rparr>"
      0 Document "[]" False "''db''" "VRef 1"]
  by (simp add: dict_value_store_def eval_defs)

text \<open>C3 as stated fails for the value \<^verbatim>\<open>None\<close>: after \<^verbatim>\<open>store["k"] = None\<close> the read
  \<^verbatim>\<open>store["k"]\<close> returns a new empty node, whose \<^verbatim>\<open>__eq__\<close> compares an empty
  \<^verbatim>\<open>OrderedDict\<close> with \<^verbatim>\<open>None\<close>.\<close>

theorem none_reads_as_node_counterexample:
  "fst (Settings_setitem ''k'' VNone (flat_store False [])) = Inr ()
   \<and> fst (Settings_getitem ''k'' (snd (Settings_setitem ''k'' VNone (flat_store False []))))
       = Inr (VRef 3)
   \<and> VRef 3 \<noteq> VNone
   \<and> Storage_items 3
        (snd (Settings_getitem ''k'' (snd (Settings_setitem ''k'' VNone (flat_store False [])))))
       = Inr []"
  by (simp add: eval_defs)

lemma keeps_keys_refl: "keeps_keys N st st"
  by (simp add: keeps_keys_def)

lemma keeps_keys_trans:
  "keeps_keys N st st1 \<Longrightarrow> keeps_keys N st1 st2 \<Longrightarrow> keeps_keys N st st2"
  unfolding keeps_keys_def by (metis (no_types, lifting))

lemma keeps_keys_mono: "keeps_keys N st st' \<Longrightarrow> M \<le> N \<Longrightarrow> keeps_keys M st st'"
  by (simp add: keeps_keys_def)

lemma grows_refl: "wf_heap st \<Longrightarrow> grows st st"
  by (simp add: grows_def keeps_keys_refl)

lemma grows_trans: "grows st st1 \<Longrightarrow> grows st1 st2 \<Longrightarrow> grows st st2"
  unfolding grows_def
  by (meson keeps_keys_mono keeps_keys_trans le_trans)

lemma wf_heap_below: "wf_heap st \<Longrightarrow> heap st a = Some ob \<Longrightarrow> a < nxt st"
  unfolding wf_heap_def by (metis not_le option.distinct(1))

lemma wf_heap_keys:
  "wf_heap st \<Longrightarrow> heap st a = Some (Dict kd its) \<Longrightarrow> k \<in> fst ` set its
     \<Longrightarrow> k \<notin> set storage_attrs"
  unfolding wf_heap_def by blast

lemma update_same_keys: "k \<in> fst ` set al \<Longrightarrow> map fst (AList.update k v al) = map fst al"
  by (simp add: update_keys)

text \<open>Replacing the items of a stored dictionary by items with the same keys.\<close>

lemma grows_same_keys:
  assumes "wf_heap st" and "heap st b = Some (Dict kd bits)" and "map fst bits' = map fst bits"
  shows "grows st (st\<lparr>heap := (heap st)(b \<mapsto> Dict kd bits')\<rparr>)"
proof -
  have "fst ` set bits' = fst ` set bits"
    using assms(3) by (metis list.set_map)
  then show ?thesis
    using assms unfolding grows_def wf_heap_def keeps_keys_def by auto
qed

text \<open>Allocating an empty dictionary or a node.\<close>

lemma grows_alloc:
  assumes "wf_heap st" and "ob = Dict kd [] \<or> ob = Node n"
  shows "grows st (snd (alloc ob st))"
  using assms unfolding grows_def wf_heap_def keeps_keys_def alloc_def by auto

lemma grows_Storage_init:
  assumes "wf_heap st"
  shows "grows st (snd (Storage_init VNone parent pn ro st))"
proof -
  have 1: "grows st (snd (alloc (Dict OrderedDict []) st))"
    using assms by (intro grows_alloc) auto
  then have w1: "wf_heap (snd (alloc (Dict OrderedDict []) st))" by (simp add: grows_def)
  have 2: "grows (snd (alloc (Dict OrderedDict []) st))
      (snd (alloc (Node \<lparr>s_storage = VRef (nxt st), s_parent = parent, s_parent_name = pn,
          s_readonly = ro\<rparr>) (snd (alloc (Dict OrderedDict []) st))))"
    using w1 by (intro grows_alloc) auto
  from grows_trans [OF 1 2] show ?thesis
    by (simp add: Storage_init_def alloc_def)
qed

lemma wf_heap_update:
  assumes "wf_heap st" and "a < nxt st" and "fst ` set its' \<inter> set storage_attrs = {}"
  shows "wf_heap (st\<lparr>heap := (heap st)(a \<mapsto> Dict kd its')\<rparr>)"
  using assms unfolding wf_heap_def by auto

text \<open>The copy loop on a node \<open>r1\<close> allocated at or above \<open>N\<close>, whose parent \<open>b\<close> already
  has the parent name as a key: below \<open>N\<close> only values change.\<close>

lemma copy_items_grows:
  assumes "wf_heap st"
    and "heap st r1 = Some (Node \<lparr>s_storage = VRef f, s_parent = VRef b,
                                      s_parent_name = VStr seg, s_readonly = VBool False\<rparr>)"
    and "heap st f = Some (Dict OrderedDict acc)"
    and "heap st b = Some (Dict kd bits)"
    and "seg \<in> fst ` set bits"
    and "f \<noteq> b" and "N \<le> f"
    and "set ks \<inter> set storage_attrs = {}"
    and "copy_items r1 src ks st = (r, st')"
  shows "wf_heap st' \<and> nxt st' = nxt st \<and> keeps_keys N st st'"
  using assms
proof (induction ks arbitrary: st acc bits)
  case Nil
  then show ?case by (simp add: keeps_keys_refl)
next
  case (Cons k ks)
  have ne: "r1 \<noteq> f" "r1 \<noteq> b" using Cons.prems(2,3,4) by auto
  have k: "k \<notin> set storage_attrs" using Cons.prems(8) by auto
  show ?case
  proof (cases "obj_getitem src k st")
    case (Inl e)
    with Cons.prems(1,9) show ?thesis by (simp add: keeps_keys_refl)
  next
    case (Inr v)
    let ?acc1 = "AList.update k v acc"
    let ?bits1 = "if seg = [] then bits else AList.update seg (VRef f) bits"
    let ?st1 = "st\<lparr>heap := (heap st)(f \<mapsto> Dict OrderedDict ?acc1, b \<mapsto> Dict kd ?bits1)\<rparr>"
    have step: "Storage_setattr r1 k v st = (Inr (), ?st1)"
    proof (cases "seg = []")
      case True
      have "(heap st)(f \<mapsto> Dict OrderedDict ?acc1, b \<mapsto> Dict kd bits)
          = (heap st)(f \<mapsto> Dict OrderedDict ?acc1)"
        using Cons.prems(4,6) by (auto simp: fun_eq_iff)
      with True Cons.prems(2,3,4,6) k ne show ?thesis
        by (simp add: Storage_setattr_def py_truthy_def obj_setitem_def get_parent_def
            set_parent_value_def)
    next
      case False
      with Cons.prems(2,3,4,6) k ne show ?thesis
        by (simp add: Storage_setattr_def py_truthy_def obj_setitem_def get_parent_def
            set_parent_value_def)
    qed
    have bkeys: "map fst ?bits1 = map fst bits"
      using Cons.prems(5) by (simp add: update_same_keys)
    have wf1: "wf_heap ?st1"
    proof -
      have a1: "fst ` set ?acc1 \<inter> set storage_attrs = {}"
        using wf_heap_keys [OF Cons.prems(1,3)] k by (auto simp: dom_update)
      have "fst ` set ?bits1 = fst ` set bits"
        using bkeys by (metis list.set_map)
      then have b1: "fst ` set ?bits1 \<inter> set storage_attrs = {}"
        using wf_heap_keys [OF Cons.prems(1,4)] by auto
      have lt: "f < nxt st" "b < nxt st"
        using wf_heap_below [OF Cons.prems(1)] Cons.prems(3,4) by auto
      have "wf_heap (st\<lparr>heap := (heap st)(f \<mapsto> Dict OrderedDict ?acc1)\<rparr>)"
        by (rule wf_heap_update [OF Cons.prems(1) lt(1) a1])
      from wf_heap_update [OF this, of b ?bits1 kd] lt(2) b1 show ?thesis by simp
    qed
    have keep1: "keeps_keys N st ?st1"
      using Cons.prems(4,7) bkeys unfolding keeps_keys_def by auto
    from Cons.prems(9) Inr step
    have rest: "copy_items r1 src ks ?st1 = (r, st')" by simp
    have "wf_heap st' \<and> nxt st' = nxt ?st1 \<and> keeps_keys N ?st1 st'"
    proof (rule Cons.IH [OF wf1 _ _ _ _ Cons.prems(6,7) _ rest])
      show "heap ?st1 r1 = Some (Node \<lparr>s_storage = VRef f, s_parent = VRef b,
                                      s_parent_name = VStr seg, s_readonly = VBool False\<rparr>)"
        using Cons.prems(2) ne by simp
      show "heap ?st1 f = Some (Dict OrderedDict ?acc1)" using Cons.prems(6) by simp
      show "heap ?st1 b = Some (Dict kd ?bits1)" by simp
      show "seg \<in> fst ` set ?bits1"
      proof (cases "seg = []")
        case True
        with Cons.prems(5) show ?thesis by simp
      next
        case False
        then show ?thesis by (simp add: dom_update)
      qed
      show "set ks \<inter> set storage_attrs = {}" using Cons.prems(8) by auto
    qed
    with keep1 show ?thesis
      by (auto intro: keeps_keys_trans)
  qed
qed

text \<open>Reading a key that is present in a node: whatever branch \<^verbatim>\<open>Storage.__getattr__\<close>
  takes, the objects that existed before keep their keys.\<close>

lemma Storage_getattr_present_grows:
  assumes "wf_heap st"
    and "Storage_contains a seg st = Inr True"
    and "Storage_getattr a seg st = (r, st')"
  shows "grows st st'"
proof -
  from assms(2) obtain m where m: "heap st a = Some (Node m)"
      "obj_contains seg (s_storage m) st = Inr True"
    by (auto simp: Storage_contains_def split: option.splits obj.splits)
  show ?thesis
  proof (cases "\<exists>b kd bits. s_storage m = VRef b \<and> heap st b = Some (Dict kd bits)")
    case False
    with m(2) have "obj_getitem (s_storage m) seg st = Inl TypeError"
      by (auto simp: obj_contains_def obj_getitem_def split: val.splits option.splits obj.splits)
    with assms(1,3) m show ?thesis
      by (simp add: Storage_getattr_def grows_refl)
  next
    case True
    then obtain b kd bits where b: "s_storage m = VRef b" "heap st b = Some (Dict kd bits)"
      by blast
    with m(2) have seg: "seg \<in> fst ` set bits" by (simp add: obj_contains_def)
    then obtain v0 where v0: "map_of bits seg = Some v0"
      by (metis domD dom_map_of_conv_image_fst)
    let ?N = "nxt st"
    let ?node = "\<lparr>s_storage = VRef ?N, s_parent = VRef b,
                   s_parent_name = VStr seg, s_readonly = VBool False\<rparr>"
    let ?st1 = "st\<lparr>heap := (heap st)(?N \<mapsto> Dict OrderedDict [], Suc ?N \<mapsto> Node ?node),
                    nxt := Suc (Suc ?N)\<rparr>"
    have init: "Storage_init VNone (VRef b) (VStr seg) (VBool False) st = (Suc ?N, ?st1)"
      by (simp add: Storage_init_def alloc_def)
    have g1: "grows st ?st1"
      using grows_Storage_init [OF assms(1), of "VRef b" "VStr seg" "VBool False"] init by simp
    then have wf1: "wf_heap ?st1" by (simp add: grows_def)
    have lt: "b < ?N" using wf_heap_below [OF assms(1) b(2)] .
    then have b1: "heap ?st1 b = Some (Dict kd bits)" using b(2) by simp
    have get: "obj_getitem (VRef b) seg st = Inr v0"
      using b(2) v0 by (simp add: obj_getitem_def)
    show ?thesis
    proof (cases "v0 = VNone")
      case True
      let ?st2 = "?st1\<lparr>heap := (heap ?st1)(b \<mapsto> Dict kd (AList.update seg (VRef (Suc ?N)) bits))\<rparr>"
      have g2: "grows ?st1 ?st2"
        by (rule grows_same_keys [OF wf1 b1]) (simp add: update_same_keys seg)
      have viv: "vivify m seg st = (Inr (VRef (Suc ?N)), ?st2)"
        using b(1) init b1 by (simp add: vivify_def obj_setitem_def)
      have "\<not> type_is_dict (VRef (Suc ?N)) ?st2"
        using lt by (simp add: type_is_dict_def)
      with assms(3) m b(1) get True viv have "st' = ?st2"
        by (simp add: Storage_getattr_def)
      with grows_trans [OF g1 g2] show ?thesis by simp
    next
      case nn: False
      show ?thesis
      proof (cases "type_is_dict v0 st")
        case False
        with assms(1,3) m b(1) get nn show ?thesis
          by (simp add: Storage_getattr_def grows_refl)
      next
        case True
        then obtain d dk ditems where d: "v0 = VRef d" "heap st d = Some (Dict dk ditems)"
          by (auto simp: type_is_dict_def split: val.splits option.splits obj.splits)
        have dlt: "d < ?N" using wf_heap_below [OF assms(1) d(2)] .
        have keys: "obj_keys (VRef d) ?st1 = Inr (map fst ditems)"
          using d(2) dlt by (simp add: obj_keys_def obj_items_def)
        obtain rr st2 where c: "copy_items (Suc ?N) (VRef d) (map fst ditems) ?st1 = (rr, st2)"
          by (cases "copy_items (Suc ?N) (VRef d) (map fst ditems) ?st1") auto
        have noattr: "set (map fst ditems) \<inter> set storage_attrs = {}"
          using wf_heap_keys [OF assms(1) d(2)] by auto
        have loop: "wf_heap st2 \<and> nxt st2 = nxt ?st1 \<and> keeps_keys ?N ?st1 st2"
        proof (rule copy_items_grows [OF wf1 _ _ b1 seg _ _ noattr c])
          show "heap ?st1 (Suc ?N) = Some (Node ?node)" by simp
          show "heap ?st1 ?N = Some (Dict OrderedDict [])" by simp
          show "?N \<noteq> b" using lt by simp
          show "?N \<le> ?N" by simp
        qed
        have "st' = st2"
          using assms(3) m b(1) get nn True d(1) init keys c
          by (cases rr) (simp_all add: Storage_getattr_def wrap_dict_def)
        moreover have "keeps_keys ?N st st2"
          using g1 loop by (auto simp: grows_def intro: keeps_keys_trans)
        ultimately show ?thesis using loop by (simp add: grows_def)
      qed
    qed
  qed
qed

lemma py_getitem_present_grows:
  assumes "wf_heap st"
    and "py_contains seg d st = Inr True"
    and "py_getitem d seg st = (r, st')"
  shows "grows st st'"
proof (cases "\<exists>a n. d = VRef a \<and> heap st a = Some (Node n)")
  case True
  then obtain a n where "d = VRef a" "heap st a = Some (Node n)" by blast
  with assms show ?thesis
    by (simp add: py_contains_def py_getitem_def Storage_getattr_present_grows)
next
  case False
  with assms(3) have "st' = st"
    by (auto simp: py_getitem_def split: val.splits option.splits obj.splits)
  with assms(1) show ?thesis by (simp add: grows_refl)
qed

lemma or_new_dict_grows:
  assumes "wf_heap st" and "or_new_dict d st = (r, st')"
  shows "grows st st'"
proof (cases "py_truthy d st = Inr False")
  case True
  with assms(2) have "st' = snd (alloc (Dict OrderedDict []) st)"
    by (simp add: or_new_dict_def split: prod.splits)
  with grows_alloc [OF assms(1), of "Dict OrderedDict []" OrderedDict] show ?thesis by simp
next
  case False
  with assms(2) have "st' = st"
    by (auto simp: or_new_dict_def split: sum.splits if_splits)
  with assms(1) show ?thesis by (simp add: grows_refl)
qed

lemma contains_helper_grows:
  "wf_heap st \<Longrightarrow> contains_helper d key st = (r, st') \<Longrightarrow> grows st st'"
proof (induction d key st arbitrary: r st' rule: contains_helper.induct)
  case (1 d key st)
  obtain r1 st1 where o: "or_new_dict d st = (r1, st1)"
    by (cases "or_new_dict d st") auto
  have g1: "grows st st1" by (rule or_new_dict_grows [OF "1.prems"(1) o])
  then have wf1: "wf_heap st1" by (simp add: grows_def)
  show ?case
  proof (cases r1)
    case (Inl e)
    with "1.prems"(2) o g1 show ?thesis by (simp add: contains_helper.simps [of d])
  next
    case d1: (Inr d1)
    show ?thesis
    proof (cases "has_dot key \<and> py_contains (first_seg key) d1 st1 = Inr True")
      case False
      with "1.prems"(2) o d1 have "st' = st1"
        by (auto simp: contains_helper.simps [of d] split: sum.splits if_splits)
      with g1 show ?thesis by simp
    next
      case True
      obtain r2 st2 where g: "py_getitem d1 (first_seg key) st1 = (r2, st2)"
        by (cases "py_getitem d1 (first_seg key) st1") auto
      have g2: "grows st1 st2"
        using py_getitem_present_grows [OF wf1 _ g] True by simp
      then have wf2: "wf_heap st2" by (simp add: grows_def)
      show ?thesis
      proof (cases r2)
        case (Inl e)
        with "1.prems"(2) o d1 True g have "st' = st2"
          by (simp add: contains_helper.simps [of d])
        with grows_trans [OF g1 g2] show ?thesis by simp
      next
        case x: (Inr x)
        with "1.prems"(2) o d1 True g
        have h: "contains_helper x (rest_segs key) st2 = (r, st')"
          by (simp add: contains_helper.simps [of d])
        have "grows st2 st'"
          using "1.IH" [OF _ _ _ _ _ _ _ wf2 h] o d1 True g x by simp
        with grows_trans [OF g1 g2] show ?thesis by (rule grows_trans)
      qed
    qed
  qed
qed

lemma Settings_contains_grows:
  assumes "wf_heap st" and "Settings_contains p st = (r, st')"
  shows "grows st st'"
proof (cases "has_dot p \<and> Storage_contains (root st) (first_seg p) st = Inr True")
  case False
  with assms(2) have "st' = st"
    by (auto simp: Settings_contains_def split: sum.splits if_splits)
  with assms(1) show ?thesis by (simp add: grows_refl)
next
  case True
  obtain r1 st1 where g: "Storage_getattr (root st) (first_seg p) st = (r1, st1)"
    by (cases "Storage_getattr (root st) (first_seg p) st") auto
  have g1: "grows st st1"
    using Storage_getattr_present_grows [OF assms(1) _ g] True by simp
  then have wf1: "wf_heap st1" by (simp add: grows_def)
  show ?thesis
  proof (cases r1)
    case (Inl e)
    with assms(2) True g g1 show ?thesis by (simp add: Settings_contains_def)
  next
    case (Inr x)
    with assms(2) True g have "contains_helper x (rest_segs p) st1 = (r, st')"
      by (simp add: Settings_contains_def)
    from contains_helper_grows [OF wf1 this] g1 show ?thesis by (blast intro: grows_trans)
  qed
qed

lemma Settings_contains_self: "Settings_contains p st = (r, st') \<Longrightarrow> same_self st st'"
  unfolding Settings_contains_def
  by (auto split: if_splits sum.splits prod.splits
      dest: Storage_getattr_self contains_helper_self same_self_trans)

text \<open>One level of the inner helper of \<^verbatim>\<open>Settings.__contains__\<close>: a false value, or a
  value that does not contain the segment looked up, ends the walk with \<^verbatim>\<open>False\<close>.\<close>

lemma contains_helper_absent:
  assumes "py_truthy d s = Inr False \<or> py_contains (first_seg key) d s = Inr False"
  shows "fst (contains_helper d key s) = Inr False"
proof -
  have nd: "\<not> has_dot key \<Longrightarrow> first_seg key = key"
    by (simp add: first_seg_def has_dot_def split_dot_no_dot)
  show ?thesis
  proof (cases "py_truthy d s = Inr False")
    case True
    then have "or_new_dict d s =
        (Inr (VRef (nxt s)), s\<lparr>heap := (heap s)(nxt s \<mapsto> Dict OrderedDict []),
                                nxt := Suc (nxt s)\<rparr>)"
      by (simp add: or_new_dict_def alloc_def)
    then show ?thesis
      by (simp add: contains_helper.simps [of d] py_contains_def obj_contains_def)
  next
    case False
    with assms have c: "py_contains (first_seg key) d s = Inr False" by simp
    then have "py_truthy d s = Inr True"
      using False
      by (auto simp: py_contains_def py_truthy_def Storage_contains_def obj_contains_def
          obj_len_def split: val.splits option.splits obj.splits)
    then have "or_new_dict d s = (Inr d, s)" by (simp add: or_new_dict_def)
    with c nd show ?thesis
      by (cases "has_dot key") (simp_all add: contains_helper.simps [of d])
  qed
qed

text \<open>
  C8, as amended. In a store whose root backing mapping is a dictionary, with
  \<open>wf_heap\<close> as defined above:
  \<^item> when the first segment of \<open>p\<close> is absent from the root mapping (for a key without a
    dot: the key itself), \<^verbatim>\<open>p in store\<close> is \<^verbatim>\<open>False\<close> and the state is unchanged;
  \<^item> for every \<open>p\<close>, whatever \<^verbatim>\<open>p in store\<close> returns or raises, \<^verbatim>\<open>store.keys()\<close> is the
    same afterwards, and every dictionary that existed before has the same keys: the
    check creates no key anywhere;
  \<^item> at every deeper level the inner helper answers \<^verbatim>\<open>False\<close> as soon as the value it has
    reached is false, or is a mapping, a node or a string that does not contain the
    segment looked up.
\<close>

theorem contains_never_vivifies:
  assumes "wf_heap st"
    and "heap st (root st) = Some (Node n)"
    and "s_storage n = VRef bk"
    and "heap st bk = Some (Dict kd its)"
  shows "(first_seg p \<notin> fst ` set its \<longrightarrow> Settings_contains p st = (Inr False, st))
       \<and> Settings_keys (snd (Settings_contains p st)) = Settings_keys st
       \<and> keeps_keys (nxt st) st (snd (Settings_contains p st))
       \<and> (\<forall>d key s. py_truthy d s = Inr False \<or> py_contains (first_seg key) d s = Inr False
              \<longrightarrow> fst (contains_helper d key s) = Inr False)"
proof (intro conjI allI impI)
  assume absent: "first_seg p \<notin> fst ` set its"
  have "\<not> has_dot p \<Longrightarrow> first_seg p = p"
    by (simp add: first_seg_def has_dot_def split_dot_no_dot)
  with absent assms(2,3,4) show "Settings_contains p st = (Inr False, st)"
    by (cases "has_dot p")
       (simp_all add: Settings_contains_def Storage_contains_def obj_contains_def)
next
  obtain r st' where c: "Settings_contains p st = (r, st')"
    by (cases "Settings_contains p st") auto
  have g: "grows st st'" by (rule Settings_contains_grows [OF assms(1) c])
  then have k: "keeps_keys (nxt st) st st'" by (simp add: grows_def)
  then show "keeps_keys (nxt st) st (snd (Settings_contains p st))" using c by simp
  have r: "root st' = root st"
    using Settings_contains_self [OF c] by (simp add: same_self_def)
  have lt: "root st < nxt st" "bk < nxt st"
    using wf_heap_below [OF assms(1)] assms(2,4) by auto
  from k lt assms(2,4) obtain its' where
      "heap st' (root st) = Some (Node n)" "heap st' bk = Some (Dict kd its')"
      "map fst its' = map fst its"
    unfolding keeps_keys_def by blast
  with r assms(2,3,4) c show "Settings_keys (snd (Settings_contains p st)) = Settings_keys st"
    by (simp add: Settings_keys_def Storage_keys_def obj_keys_def obj_items_def)
next
  fix d key s
  assume "py_truthy d s = Inr False \<or> py_contains (first_seg key) d s = Inr False"
  then show "fst (contains_helper d key s) = Inr False" by (rule contains_helper_absent)
qed

theorem contains_never_vivifies_witness:
  "wf_heap (nested_store False)
   \<and> Settings_contains ''zip.zap'' (nested_store False) = (Inr False, nested_store False)
   \<and> fst (Settings_contains ''foo.baz'' (nested_store False)) = Inr False
   \<and> fst (Settings_contains ''foo.bar'' (nested_store False)) = Inr True
   \<and> Settings_keys (nested_store False) = Inr [''foo'']
   \<and> Settings_keys (snd (Settings_contains ''foo.baz'' (nested_store False))) = Inr [''foo'']
   \<and> Settings_keys (snd (Settings_getitem ''zip.zap'' (nested_store False)))
       = Inr [''foo'', ''zip'']"
proof -
  have wf: "wf_heap (nested_store False)"
    by (auto simp: wf_heap_def store_defs storage_attrs_def split: if_splits)
  have node: "heap (nested_store False) (root (nested_store False))
      = Some (Node \<lparr>s_storage = VRef 0, s_parent = VNone, s_parent_name = VStr [],
                     s_readonly = VBool False\<rparr>)"
    "heap (nested_store False) 0 = Some (Dict Document [(''foo'', VRef 1)])"
    by (simp_all add: store_defs)
  have absent: "first_seg ''zip.zap'' \<notin> fst ` set [(''foo'', VRef 1)]"
    by (simp add: dot_defs)
  from contains_never_vivifies [OF wf node(1) _ node(2), of "''zip.zap''"] absent
  have "Settings_contains ''zip.zap'' (nested_store False) = (Inr False, nested_store False)"
    by simp
  moreover from contains_never_vivifies [OF wf node(1) _ node(2), of "''foo.baz''"]
  have "Settings_keys (snd (Settings_contains ''foo.baz'' (nested_store False)))
      = Settings_keys (nested_store False)"
    by simp
  moreover have "Settings_keys (nested_store False) = Inr [''foo'']"
    by (simp add: eval_defs)
  moreover have "fst (Settings_contains ''foo.baz'' (nested_store False)) = Inr False"
    "fst (Settings_contains ''foo.bar'' (nested_store False)) = Inr True"
    "Settings_keys (snd (Settings_getitem ''zip.zap'' (nested_store False)))
       = Inr [''foo'', ''zip'']"
    by (simp_all add: eval_defs)
  ultimately show ?thesis using wf by simp
qed

text \<open>C8 as stated fails when a segment is absent below a present one that holds a
  scalar. On the store \<^verbatim>\<open>{"a": 5}\<close> the check \<^verbatim>\<open>"a.b" in store\<close> raises \<^verbatim>\<open>TypeError\<close> at
  \<^verbatim>\<open>"b" in 5\<close>; on \<^verbatim>\<open>{"a": "xyz"}\<close> the check \<^verbatim>\<open>"a.y" in store\<close> is the substring test
  \<^verbatim>\<open>"y" in "xyz"\<close> and answers \<^verbatim>\<open>True\<close>, although \<^verbatim>\<open>store["a.y"]\<close> raises.\<close>

theorem contains_scalar_counterexample:
  "Settings_keys (flat_store False [(''a'', VInt 5)]) = Inr [''a'']
   \<and> fst (Settings_contains ''a.b'' (flat_store False [(''a'', VInt 5)])) = Inl TypeError
   \<and> fst (Settings_contains ''a.y'' (flat_store False [(''a'', VStr ''xyz'')])) = Inr True
   \<and> fst (Settings_getitem ''a.y'' (flat_store False [(''a'', VStr ''xyz'')])) = Inl TypeError"
  by (simp add: eval_defs)

end
